theory Spec2Isabelle
  imports
    Complex_Main
    "HOL-Library.Multiset"
    "HOL-Library.Char_ord"
    "HOL-Library.List_Lexorder"
begin

section \<open>Sales performance trend analysis and customer segmentation\<close>

text \<open>
  A shallow embedding of \<^verbatim>\<open>salesperformancetrendanalysis.py\<close>: the cleaning step
  \<^verbatim>\<open>clean_and_prepare_data\<close>, the RFM engine \<^verbatim>\<open>perform_rfm_analysis\<close> with its
  inner \<^verbatim>\<open>segment_customer\<close>, the reporter \<^verbatim>\<open>plot_and_save_analysis\<close> and the
  main block.

  Conventions of the model.
  \<^item> A data frame is the list of its rows, in row order; a column is the list of one
    field of the rows.
  \<^item> Decimal columns (\<^verbatim>\<open>UnitPrice\<close>, \<^verbatim>\<open>Sales\<close>, \<^verbatim>\<open>Monetary\<close>, quantile edges, ranks)
    are \<^typ>\<open>real\<close>: arithmetic is exact, the rounding of binary floating point is not
    modelled.
  \<^item> A parsed \<^verbatim>\<open>InvoiceDate\<close> is the \<^typ>\<open>int\<close> number of nanoseconds since the epoch,
    as pandas stores a timestamp. Every row is taken to have a quantity, a unit price, an
    invoice number, a description and a date that parsed; only \<^verbatim>\<open>CustomerID\<close> may be
    missing, the one column whose missing values the source handles.
  \<^item> The pandas and numpy routines the source calls (\<^verbatim>\<open>groupby\<close>, \<^verbatim>\<open>qcut\<close>,
    \<^verbatim>\<open>rank\<close>, \<^verbatim>\<open>quantile\<close>, \<^verbatim>\<open>searchsorted\<close>) are written out as functions on lists
    with the behaviour the library documents, their exceptions as values of \<open>error\<close>.
\<close>

subsection \<open>Data model\<close>

text \<open>
  Both the transaction frame and the RFM table have a \<^verbatim>\<open>CustomerID\<close> column. Its type
  changes during cleaning: a possibly missing number as read from the file, an integer after
  \<^verbatim>\<open>dropna\<close> and \<^verbatim>\<open>astype(int)\<close>.
\<close>

record 'c keyed =
  CustomerID :: 'c

record 'c row = "'c keyed" +
  InvoiceNo :: string
  Description :: string
  Quantity :: int
  UnitPrice :: real
  InvoiceDate :: int

record 'c sales_row = "'c row" +
  Sales :: real

type_synonym raw_frame = "real option row list"
type_synonym clean_frame = "int sales_row list"

record rfm_metrics = "int keyed" +
  Recency :: int
  Frequency :: int
  Monetary :: real

record rfm_row = rfm_metrics +
  R_Score :: int
  F_Score :: int
  M_Score :: int
  RFM_Total_Score :: int
  Segment :: string

datatype error = ValueError | OutOfBoundsDatetime

text \<open>What the program prints that carries information: the lines with data in them.\<close>

datatype message =
    File_not_found string
  | Rows_remaining nat
  | Saved string
  | Workflow_complete

subsection \<open>Cleaning and feature engineering\<close>

text \<open>\<^verbatim>\<open>df.dropna(subset=['CustomerID'])\<close>: rows whose customer id is missing go.\<close>

definition dropna_CustomerID :: "raw_frame \<Rightarrow> raw_frame" where
  "dropna_CustomerID df = filter (\<lambda>r. CustomerID r \<noteq> None) df"

text \<open>
  \<^verbatim>\<open>astype(int)\<close> on a numeric column truncates towards zero. It runs after the
  \<^verbatim>\<open>dropna\<close>, so no missing value reaches it; the \<open>None\<close> case below is unreachable
  from \<open>clean_frame_of\<close>.
\<close>

definition trunc_int :: "real \<Rightarrow> int" where
  "trunc_int x = (if 0 \<le> x then \<lfloor>x\<rfloor> else \<lceil>x\<rceil>)"

definition astype_int_CustomerID :: "real option row \<Rightarrow> int row" where
  "astype_int_CustomerID r =
     \<lparr> CustomerID = (case CustomerID r of Some c \<Rightarrow> trunc_int c | None \<Rightarrow> 0),
       InvoiceNo = InvoiceNo r, Description = Description r, Quantity = Quantity r,
       UnitPrice = UnitPrice r, InvoiceDate = InvoiceDate r \<rparr>"

text \<open>\<^verbatim>\<open>df[(df['Quantity'] > 0) & (df['UnitPrice'] > 0)]\<close>\<close>

definition valid_entry :: "'c row \<Rightarrow> bool" where
  "valid_entry r \<longleftrightarrow> 0 < Quantity r \<and> 0 < UnitPrice r"

text \<open>\<^verbatim>\<open>df_cleaned['Sales'] = df_cleaned['Quantity'] * df_cleaned['UnitPrice']\<close>\<close>

definition add_Sales :: "int row \<Rightarrow> int sales_row" where
  "add_Sales r =
     \<lparr> CustomerID = CustomerID r,
       InvoiceNo = InvoiceNo r, Description = Description r, Quantity = Quantity r,
       UnitPrice = UnitPrice r, InvoiceDate = InvoiceDate r,
       Sales = real_of_int (Quantity r) * UnitPrice r \<rparr>"

text \<open>The body of \<^verbatim>\<open>clean_and_prepare_data\<close> after the file was read.\<close>

definition clean_frame_of :: "raw_frame \<Rightarrow> clean_frame" where
  "clean_frame_of df =
     map add_Sales (filter valid_entry (map astype_int_CustomerID (dropna_CustomerID df)))"

text \<open>
  The file system is a partial map from paths to the frames \<^verbatim>\<open>read_csv\<close> parses from
  them; \<open>None\<close> is an absent file. The function returns what it printed and its result,
  \<open>None\<close> for Python's \<^verbatim>\<open>None\<close>.
\<close>

definition clean_and_prepare_data ::
  "(string \<rightharpoonup> raw_frame) \<Rightarrow> string \<Rightarrow> message list \<times> clean_frame option" where
  "clean_and_prepare_data fs file_path =
     (case fs file_path of
        None \<Rightarrow> ([File_not_found file_path], None)
      | Some df \<Rightarrow>
          (let df_cleaned = clean_frame_of df
           in ([Rows_remaining (length df_cleaned)], Some df_cleaned)))"

subsection \<open>Segment mapping\<close>

definition segment_customer :: "int \<Rightarrow> string" where
  "segment_customer score =
     (if score \<ge> 13 then ''Best Customers''
      else if score \<ge> 10 then ''Loyal Customers''
      else if score \<ge> 6 then ''Potential/At-Risk''
      else ''Lost Customers'')"

text \<open>The four labels, and their order of value from lowest to highest.\<close>

definition segment_labels :: "string list" where
  "segment_labels =
     [''Lost Customers'', ''Potential/At-Risk'', ''Loyal Customers'', ''Best Customers'']"

definition segment_tier :: "string \<Rightarrow> nat" where
  "segment_tier l =
     (if l = ''Best Customers'' then 3
      else if l = ''Loyal Customers'' then 2
      else if l = ''Potential/At-Risk'' then 1
      else 0)"

subsection \<open>Grouping\<close>

text \<open>
  \<^verbatim>\<open>groupby\<close> sorts the distinct keys (its default \<^verbatim>\<open>sort=True\<close>) and hands each
  aggregation the rows of one key, in frame order.
\<close>

definition groupby_keys :: "('a \<Rightarrow> 'k::linorder) \<Rightarrow> 'a list \<Rightarrow> 'k list" where
  "groupby_keys key df = sort (remdups (map key df))"

definition get_group :: "('a \<Rightarrow> 'k) \<Rightarrow> 'a list \<Rightarrow> 'k \<Rightarrow> 'a list" where
  "get_group key df k = filter (\<lambda>r. key r = k) df"

definition nunique :: "'a list \<Rightarrow> nat" where
  "nunique xs = length (remdups xs)"

subsection \<open>RFM metrics\<close>

definition day_ns :: int where
  "day_ns = 86400000000000"

text \<open>The largest timestamp pandas represents, \<open>2^63 - 1\<close> nanoseconds.\<close>

definition timestamp_max :: int where
  "timestamp_max = 9223372036854775807"

text \<open>
  \<^verbatim>\<open>df_cleaned['InvoiceDate'].max() + pd.Timedelta(days=1)\<close>. The maximum of an empty
  column is \<^verbatim>\<open>NaT\<close>, and so is the sum (\<open>None\<close>); a sum beyond the representable range
  raises.
\<close>

definition snapshot_date :: "clean_frame \<Rightarrow> error + int option" where
  "snapshot_date df =
     (if df = [] then Inr None
      else (let m = Max (set (map InvoiceDate df))
            in if timestamp_max < m + day_ns then Inl OutOfBoundsDatetime
               else Inr (Some (m + day_ns))))"

text \<open>
  The three named aggregations over the rows \<open>x\<close> of one customer; \<^verbatim>\<open>.days\<close> of a
  time difference is its floor division by the length of a day.
\<close>

definition rfm_aggregate :: "int \<Rightarrow> clean_frame \<Rightarrow> int \<Rightarrow> rfm_metrics" where
  "rfm_aggregate snapshot df c =
     (let x = get_group CustomerID df c
      in \<lparr> CustomerID = c,
           Recency = (snapshot - Max (set (map InvoiceDate x))) div day_ns,
           Frequency = int (nunique (map InvoiceNo x)),
           Monetary = sum_list (map Sales x) \<rparr>)"

text \<open>
  Lines 50 to 56: the grouped table, one row for each key. An empty frame has no group, so
  its \<^verbatim>\<open>NaT\<close> snapshot is never used.
\<close>

definition rfm_table :: "clean_frame \<Rightarrow> error + rfm_metrics list" where
  "rfm_table df =
     (case snapshot_date df of
        Inl e \<Rightarrow> Inl e
      | Inr None \<Rightarrow> Inr []
      | Inr (Some snapshot) \<Rightarrow>
          Inr (map (rfm_aggregate snapshot df) (groupby_keys CustomerID df)))"

subsection \<open>Quantile scores\<close>

text \<open>
  \<^verbatim>\<open>rank(method='first')\<close>: the ordinal rank of entry \<open>i\<close>, counting from 1, with equal
  values ranked in the order they stand in the column.
\<close>

definition ordinal_rank :: "'a::linorder list \<Rightarrow> nat \<Rightarrow> nat" where
  "ordinal_rank xs i =
     1 + length (filter (\<lambda>y. y < xs ! i) xs) + length (filter (\<lambda>y. y = xs ! i) (take i xs))"

definition rank_first :: "'a::linorder list \<Rightarrow> real list" where
  "rank_first xs = map (\<lambda>i. real (ordinal_rank xs i)) [0..<length xs]"

text \<open>
  The quantile \<open>k / q\<close> of a column by linear interpolation, as \<^verbatim>\<open>Series.quantile\<close>
  computes it: at the position \<open>k * (n - 1) / q\<close> of the sorted column, whose integer part
  is \<open>lo\<close> and whose fraction is \<open>g\<close>; the upper neighbour is clipped to the last index.
\<close>

definition quantile_linear :: "real list \<Rightarrow> nat \<Rightarrow> nat \<Rightarrow> real" where
  "quantile_linear xs k q =
     (let s = sort xs; n = length s;
          lo = (k * (n - 1)) div q;
          hi = min (lo + 1) (n - 1);
          g = real ((k * (n - 1)) mod q) / real q
      in s ! lo + (s ! hi - s ! lo) * g)"

text \<open>\<^verbatim>\<open>bins.searchsorted(v, side='left')\<close> on increasing edges: the edges below \<open>v\<close>.\<close>

definition searchsorted_left :: "real list \<Rightarrow> real \<Rightarrow> nat" where
  "searchsorted_left bins v = length (takeWhile (\<lambda>b. b < v) bins)"

text \<open>The \<open>q + 1\<close> bin edges of a quantile cut: the quantiles \<open>0/q, \<dots>, q/q\<close>.\<close>

definition qcut_bins :: "real list \<Rightarrow> nat \<Rightarrow> real list" where
  "qcut_bins x q = map (\<lambda>k. quantile_linear x k q) [0..<q + 1]"

text \<open>
  \<^verbatim>\<open>pd.qcut(x, q, labels=labels)\<close>. The edges are the quantiles \<open>0/q, \<dots>, q/q\<close>; equal
  edges raise (\<^verbatim>\<open>duplicates='raise'\<close>), and so do the edges of an empty column, which
  are all \<^verbatim>\<open>NaN\<close>. A value gets the label of the bin it falls in, bins being open on
  the left and closed on the right, the lowest edge included; a value in no bin gets the
  missing category \<open>None\<close>.
\<close>

definition qcut :: "real list \<Rightarrow> nat \<Rightarrow> int list \<Rightarrow> error + int option list" where
  "qcut x q labels =
     (if x = [] then Inl ValueError
      else (let bins = qcut_bins x q
            in if length (remdups bins) < length bins \<and> length bins \<noteq> 2 then Inl ValueError
               else if \<not> distinct labels then Inl ValueError
               else if length labels \<noteq> length bins - 1 then Inl ValueError
               else Inr (map (\<lambda>v.
                      (let ids = (if v = hd bins then 1 else searchsorted_left bins v)
                       in if ids = length bins \<or> ids = 0 then None
                          else Some (labels ! (ids - 1)))) x)))"

text \<open>\<^verbatim>\<open>astype(int)\<close> on a categorical column raises on a missing category.\<close>

fun astype_int :: "int option list \<Rightarrow> error + int list" where
  "astype_int [] = Inr []"
| "astype_int (None # cs) = Inl ValueError"
| "astype_int (Some v # cs) =
     (case astype_int cs of Inl e \<Rightarrow> Inl e | Inr vs \<Rightarrow> Inr (v # vs))"

subsection \<open>The RFM engine\<close>

text \<open>One row of the final table: the scores, their total, and the segment of the total.\<close>

definition score_row :: "rfm_metrics \<Rightarrow> int \<Rightarrow> int \<Rightarrow> int \<Rightarrow> rfm_row" where
  "score_row x r f m =
     \<lparr> CustomerID = CustomerID x, Recency = Recency x, Frequency = Frequency x,
       Monetary = Monetary x,
       R_Score = r, F_Score = f, M_Score = m,
       RFM_Total_Score = r + f + m,
       Segment = segment_customer (r + f + m) \<rparr>"

definition perform_rfm_analysis :: "clean_frame \<Rightarrow> error + rfm_row list" where
  "perform_rfm_analysis df_cleaned =
     (case rfm_table df_cleaned of
        Inl e \<Rightarrow> Inl e
      | Inr rfm \<Rightarrow>
     (case qcut (map (\<lambda>x. real_of_int (Recency x)) rfm) 5 [5, 4, 3, 2, 1] of
        Inl e \<Rightarrow> Inl e
      | Inr r_cat \<Rightarrow>
     (case qcut (rank_first (map Frequency rfm)) 5 [1, 2, 3, 4, 5] of
        Inl e \<Rightarrow> Inl e
      | Inr f_cat \<Rightarrow>
     (case qcut (map Monetary rfm) 5 [1, 2, 3, 4, 5] of
        Inl e \<Rightarrow> Inl e
      | Inr m_cat \<Rightarrow>
     (case astype_int r_cat of
        Inl e \<Rightarrow> Inl e
      | Inr r \<Rightarrow>
     (case astype_int f_cat of
        Inl e \<Rightarrow> Inl e
      | Inr f \<Rightarrow>
     (case astype_int m_cat of
        Inl e \<Rightarrow> Inl e
      | Inr m \<Rightarrow>
          Inr (map (\<lambda>(x, r, f, m). score_row x r f m) (zip rfm (zip r (zip f m)))))))))))"

subsection \<open>The reporter\<close>

text \<open>
  \<^verbatim>\<open>dt.to_period('M')\<close>: the month of a timestamp, as the number of months since
  January 1970 (the ordinal pandas keeps for a monthly period), by the usual conversion of
  a day count to a civil date.
\<close>

definition to_period_M :: "int \<Rightarrow> int" where
  "to_period_M t =
     (let z = t div day_ns + 719468;
          era = z div 146097;
          doe = z - era * 146097;
          yoe = (doe - doe div 1460 + doe div 36524 - doe div 146096) div 365;
          doy = doe - (365 * yoe + yoe div 4 - yoe div 100);
          mp = (5 * doy + 2) div 153;
          mon = (if mp < 10 then mp + 3 else mp - 9);
          yr = yoe + era * 400 + (if mon \<le> 2 then 1 else 0)
      in (yr - 1970) * 12 + (mon - 1))"

text \<open>\<^verbatim>\<open>groupby(key)['Sales'].sum()\<close>\<close>

definition sum_Sales_by :: "(int sales_row \<Rightarrow> 'k::linorder) \<Rightarrow> clean_frame \<Rightarrow> ('k \<times> real) list" where
  "sum_Sales_by key df =
     map (\<lambda>k. (k, sum_list (map Sales (get_group key df k)))) (groupby_keys key df)"

definition monthly_sales :: "clean_frame \<Rightarrow> (int \<times> real) list" where
  "monthly_sales df = sum_Sales_by (\<lambda>r. to_period_M (InvoiceDate r)) df"

definition product_sales :: "clean_frame \<Rightarrow> (string \<times> real) list" where
  "product_sales df = sum_Sales_by Description df"

text \<open>
  \<^verbatim>\<open>sort_values(ascending=False)\<close>, with equal values left in their order (pandas
  leaves the order of ties to the sorting routine; no theorem below depends on it).
\<close>

definition sort_values_desc :: "('a \<times> 'b::linorder) list \<Rightarrow> ('a \<times> 'b) list" where
  "sort_values_desc xs = rev (sort_key snd (rev xs))"

definition top_10_products :: "clean_frame \<Rightarrow> (string \<times> real) list" where
  "top_10_products df = take 10 (sort_values_desc (product_sales df))"

text \<open>\<^verbatim>\<open>value_counts()\<close>: the count of each distinct value, largest first.\<close>

definition value_counts :: "'a list \<Rightarrow> ('a \<times> nat) list" where
  "value_counts xs =
     sort_values_desc (map (\<lambda>v. (v, length (filter (\<lambda>x. x = v) xs))) (rev (remdups (rev xs))))"

datatype artifact =
    Line_chart "(int \<times> real) list"
  | Bar_chart "(string \<times> real) list"
  | Pie_chart "(string \<times> nat) list"
  | Csv_table "rfm_row list"

text \<open>
  The three charts, as the files written with the data each one shows. Drawing and saving
  are taken to succeed. The \<^verbatim>\<open>InvoiceMonth\<close> column the function adds to the frame is
  read by the monthly grouping only.
\<close>

definition plot_and_save_analysis ::
  "clean_frame \<Rightarrow> rfm_row list \<Rightarrow> message list \<times> (string \<times> artifact) list" where
  "plot_and_save_analysis df_cleaned rfm_data =
     ([Saved ''monthly_sales_trend.png'', Saved ''top_10_products.png'',
       Saved ''rfm_segmentation_pie.png''],
      [(''monthly_sales_trend.png'', Line_chart (monthly_sales df_cleaned)),
       (''top_10_products.png'', Bar_chart (top_10_products df_cleaned)),
       (''rfm_segmentation_pie.png'', Pie_chart (value_counts (map Segment rfm_data)))])"

subsection \<open>Main execution\<close>

definition FILE_NAME :: string where
  "FILE_NAME = ''Online_Retail.csv''"

text \<open>
  A run: what it printed, the files it wrote, and the exception that ended it, if one did.
  An exception of the RFM engine is not caught; it ends the run before any file is written.
\<close>

record run =
  printed :: "message list"
  written :: "(string \<times> artifact) list"
  uncaught :: "error option"

definition main :: "(string \<rightharpoonup> raw_frame) \<Rightarrow> run" where
  "main fs =
     (case clean_and_prepare_data fs FILE_NAME of
        (out, None) \<Rightarrow> \<lparr> printed = out, written = [], uncaught = None \<rparr>
      | (out, Some clean_data) \<Rightarrow>
          (case perform_rfm_analysis clean_data of
             Inl e \<Rightarrow> \<lparr> printed = out, written = [], uncaught = Some e \<rparr>
           | Inr rfm_results \<Rightarrow>
               (let (out', charts) = plot_and_save_analysis clean_data rfm_results
                in \<lparr> printed = out @ out' @ [Saved ''rfm_segmentation_data.csv'', Workflow_complete],
                     written = charts @ [(''rfm_segmentation_data.csv'', Csv_table rfm_results)],
                     uncaught = None \<rparr>)))"

subsection \<open>A small data set\<close>

text \<open>
  Five rows read from the file: two customers with valid purchases in December 2010, a row
  without a customer id and a return.
\<close>

definition example_raw :: raw_frame where
  "example_raw =
     [\<lparr> CustomerID = Some 2, InvoiceNo = ''A'', Description = ''pen'', Quantity = 2,
        UnitPrice = 3 / 2, InvoiceDate = 14944 * day_ns \<rparr>,
      \<lparr> CustomerID = Some 1, InvoiceNo = ''B'', Description = ''ink'', Quantity = 1,
        UnitPrice = 5, InvoiceDate = 14945 * day_ns + 5 \<rparr>,
      \<lparr> CustomerID = None, InvoiceNo = ''C'', Description = ''ink'', Quantity = 1,
        UnitPrice = 5, InvoiceDate = 14999 * day_ns \<rparr>,
      \<lparr> CustomerID = Some 1, InvoiceNo = ''D'', Description = ''ink'', Quantity = - 3,
        UnitPrice = 5, InvoiceDate = 14950 * day_ns \<rparr>,
      \<lparr> CustomerID = Some 2, InvoiceNo = ''A'', Description = ''cup'', Quantity = 1,
        UnitPrice = 4, InvoiceDate = 14944 * day_ns \<rparr>]"

definition example_fs :: "string \<rightharpoonup> raw_frame" where
  "example_fs = [FILE_NAME \<mapsto> example_raw]"

definition example_clean :: clean_frame where
  "example_clean =
     [\<lparr> CustomerID = 2, InvoiceNo = ''A'', Description = ''pen'', Quantity = 2,
        UnitPrice = 3 / 2, InvoiceDate = 1291161600000000000, Sales = 3 \<rparr>,
      \<lparr> CustomerID = 1, InvoiceNo = ''B'', Description = ''ink'', Quantity = 1,
        UnitPrice = 5, InvoiceDate = 1291248000000000005, Sales = 5 \<rparr>,
      \<lparr> CustomerID = 2, InvoiceNo = ''A'', Description = ''cup'', Quantity = 1,
        UnitPrice = 4, InvoiceDate = 1291161600000000000, Sales = 4 \<rparr>]"

definition example_metrics :: "rfm_metrics list" where
  "example_metrics =
     [\<lparr> CustomerID = 1, Recency = 1, Frequency = 1, Monetary = 5 \<rparr>,
      \<lparr> CustomerID = 2, Recency = 2, Frequency = 1, Monetary = 7 \<rparr>]"

definition example_scored :: "rfm_row list" where
  "example_scored =
     [\<lparr> CustomerID = 1, Recency = 1, Frequency = 1, Monetary = 5,
        R_Score = 5, F_Score = 1, M_Score = 1, RFM_Total_Score = 7,
        Segment = ''Potential/At-Risk'' \<rparr>,
      \<lparr> CustomerID = 2, Recency = 2, Frequency = 1, Monetary = 7,
        R_Score = 1, F_Score = 5, M_Score = 5, RFM_Total_Score = 11,
        Segment = ''Loyal Customers'' \<rparr>]"

text \<open>A frame with a single customer, on which the first quintile cut raises.\<close>

definition example_single :: clean_frame where
  "example_single =
     [\<lparr> CustomerID = 2, InvoiceNo = ''A'', Description = ''pen'', Quantity = 2,
        UnitPrice = 3 / 2, InvoiceDate = 1291161600000000000, Sales = 3 \<rparr>]"

definition example_single_metrics :: "rfm_metrics list" where
  "example_single_metrics = [\<lparr> CustomerID = 2, Recency = 1, Frequency = 1, Monetary = 3 \<rparr>]"

section \<open>Properties\<close>

subsection \<open>The small data set, evaluated\<close>

lemma example_clean_eq: "clean_frame_of example_raw = example_clean"
  by (simp add: clean_frame_of_def example_raw_def example_clean_def dropna_CustomerID_def
      astype_int_CustomerID_def trunc_int_def valid_entry_def add_Sales_def day_ns_def)

lemma example_snapshot: "snapshot_date example_clean = Inr (Some 1291334400000000005)"
  by (simp add: snapshot_date_def example_clean_def day_ns_def timestamp_max_def)

lemma example_metrics_eq: "rfm_table example_clean = Inr example_metrics"
  unfolding rfm_table_def example_snapshot
  by (simp add: example_clean_def example_metrics_def groupby_keys_def rfm_aggregate_def
      get_group_def nunique_def day_ns_def)

lemma example_R_cut: "qcut [1, 2] 5 [5, 4, 3, 2, 1] = Inr [Some 5, Some 1]"
  by (simp add: qcut_def qcut_bins_def quantile_linear_def searchsorted_left_def upt_rec Let_def)

lemma example_F_rank: "rank_first [1::int, 1] = [1, 2]"
  by (simp add: rank_first_def ordinal_rank_def upt_rec)

lemma example_F_cut: "qcut [1, 2] 5 [1, 2, 3, 4, 5] = Inr [Some 1, Some 5]"
  by (simp add: qcut_def qcut_bins_def quantile_linear_def searchsorted_left_def upt_rec Let_def)

lemma example_M_cut: "qcut [5, 7] 5 [1, 2, 3, 4, 5] = Inr [Some 1, Some 5]"
  by (simp add: qcut_def qcut_bins_def quantile_linear_def searchsorted_left_def upt_rec Let_def)

lemma example_scored_eq: "perform_rfm_analysis example_clean = Inr example_scored"
  unfolding perform_rfm_analysis_def example_metrics_eq
  by (simp add: example_metrics_def example_R_cut example_F_rank example_F_cut example_M_cut
      score_row_def segment_customer_def example_scored_def)

lemma example_load:
  "clean_and_prepare_data example_fs FILE_NAME = ([Rows_remaining 3], Some example_clean)"
  by (simp add: clean_and_prepare_data_def example_fs_def example_clean_eq)
     (simp add: example_clean_def)

subsection \<open>Segment labels\<close>

lemma segment_tier_simps:
  "segment_tier ''Best Customers'' = 3"
  "segment_tier ''Loyal Customers'' = 2"
  "segment_tier ''Potential/At-Risk'' = 1"
  "segment_tier ''Lost Customers'' = 0"
  by (simp_all add: segment_tier_def)

lemma segment_tier_customer:
  "segment_tier (segment_customer s) =
     (if 13 \<le> s then 3 else if 10 \<le> s then 2 else if 6 \<le> s then 1 else 0)"
  by (simp add: segment_customer_def segment_tier_simps)

lemma segment_customer_label: "segment_customer s \<in> set segment_labels"
  unfolding segment_customer_def segment_labels_def
  by (simp only: list.set insert_iff if_split [of "\<lambda>l. l \<in> _"] simp_thms if_True if_False split: if_split)

lemma segment_labels_distinct: "distinct segment_labels"
  by (simp add: segment_labels_def)

lemma ex1_member: "(\<exists>!l. l \<in> A \<and> x = l) \<longleftrightarrow> x \<in> A"
  by blast

subsection \<open>The shape of a successful run of the engine\<close>

lemma qcut_length: "qcut x q ls = Inr cats \<Longrightarrow> length cats = length x"
  by (auto simp add: qcut_def Let_def split: if_splits)

lemma astype_int_Inr: "astype_int cs = Inr vs \<Longrightarrow> cs = map Some vs"
proof (induction cs arbitrary: vs)
  case Nil
  then show ?case by simp
next
  case (Cons c cs)
  then show ?case by (cases c) (auto split: sum.splits)
qed

lemma astype_int_map_Some: "astype_int (map Some vs) = Inr vs"
  by (induction vs) auto

lemma zip4_rows:
  assumes "length r = length tab" "length f = length tab" "length m = length tab"
  shows "map (\<lambda>(x, r, f, m). score_row x r f m) (zip tab (zip r (zip f m))) =
         map (\<lambda>i. score_row (tab ! i) (r ! i) (f ! i) (m ! i)) [0..<length tab]"
  using assms by (intro nth_equalityI) auto

text \<open>What a successful run of the engine went through.\<close>

lemma perform_rfm_analysis_Inr:
  assumes "perform_rfm_analysis df = Inr out"
  obtains tab r f m where
    "rfm_table df = Inr tab"
    "qcut (map (\<lambda>x. real_of_int (Recency x)) tab) 5 [5, 4, 3, 2, 1] = Inr (map Some r)"
    "qcut (rank_first (map Frequency tab)) 5 [1, 2, 3, 4, 5] = Inr (map Some f)"
    "qcut (map Monetary tab) 5 [1, 2, 3, 4, 5] = Inr (map Some m)"
    "length r = length tab" "length f = length tab" "length m = length tab"
    "out = map (\<lambda>i. score_row (tab ! i) (r ! i) (f ! i) (m ! i)) [0..<length tab]"
proof -
  from assms obtain tab rc fc mc r f m where
    tab: "rfm_table df = Inr tab" and
    rc: "qcut (map (\<lambda>x. real_of_int (Recency x)) tab) 5 [5, 4, 3, 2, 1] = Inr rc" and
    fc: "qcut (rank_first (map Frequency tab)) 5 [1, 2, 3, 4, 5] = Inr fc" and
    mc: "qcut (map Monetary tab) 5 [1, 2, 3, 4, 5] = Inr mc" and
    r: "astype_int rc = Inr r" and f: "astype_int fc = Inr f" and m: "astype_int mc = Inr m" and
    out: "out = map (\<lambda>(x, r, f, m). score_row x r f m) (zip tab (zip r (zip f m)))"
    unfolding perform_rfm_analysis_def by (auto split: sum.splits)
  have rc': "rc = map Some r" and fc': "fc = map Some f" and mc': "mc = map Some m"
    using r f m by (simp_all add: astype_int_Inr)
  have lr: "length r = length tab"
    using qcut_length [OF rc] rc' by simp
  have lf: "length f = length tab"
    using qcut_length [OF fc] fc' by (simp add: rank_first_def)
  have lm: "length m = length tab"
    using qcut_length [OF mc] mc' by simp
  show thesis
    using that [OF tab rc [unfolded rc'] fc [unfolded fc'] mc [unfolded mc'] lr lf lm]
      out zip4_rows [OF lr lf lm] by simp
qed

lemma perform_rfm_analysis_row:
  assumes "perform_rfm_analysis df = Inr out" "x \<in> set out"
  obtains t r f m where "x = score_row t r f m"
proof -
  from assms(1) obtain tab r f m where
    "out = map (\<lambda>i. score_row (tab ! i) (r ! i) (f ! i) (m ! i)) [0..<length tab]"
    by (rule perform_rfm_analysis_Inr)
  with assms(2) that show thesis by auto
qed

subsection \<open>The segment mapping\<close>

text \<open>
  Claim C1. The segment label is a step function of the total score: a total of 13 or more
  gives \<^verbatim>\<open>Best Customers\<close>, 10 to 12 \<^verbatim>\<open>Loyal Customers\<close>, 6 to 9
  \<^verbatim>\<open>Potential/At-Risk\<close>, less than 6 \<^verbatim>\<open>Lost Customers\<close>; no other label is
  produced; a higher total never gives a lower tier; and in every row of the table the
  engine returns, the segment is this function of the row's total score.
\<close>

theorem segment_customer_step:
  "(13 \<le> s \<longrightarrow> segment_customer s = ''Best Customers'') \<and>
   (10 \<le> s \<and> s \<le> 12 \<longrightarrow> segment_customer s = ''Loyal Customers'') \<and>
   (6 \<le> s \<and> s \<le> 9 \<longrightarrow> segment_customer s = ''Potential/At-Risk'') \<and>
   (s < 6 \<longrightarrow> segment_customer s = ''Lost Customers'') \<and>
   segment_customer s \<in> set segment_labels \<and>
   (s \<le> t \<longrightarrow> segment_tier (segment_customer s) \<le> segment_tier (segment_customer t)) \<and>
   (perform_rfm_analysis df = Inr rfm \<longrightarrow>
      (\<forall>x \<in> set rfm. Segment x = segment_customer (RFM_Total_Score x)))"
proof -
  have thresholds:
    "(13 \<le> s \<longrightarrow> segment_customer s = ''Best Customers'') \<and>
     (10 \<le> s \<and> s \<le> 12 \<longrightarrow> segment_customer s = ''Loyal Customers'') \<and>
     (6 \<le> s \<and> s \<le> 9 \<longrightarrow> segment_customer s = ''Potential/At-Risk'') \<and>
     (s < 6 \<longrightarrow> segment_customer s = ''Lost Customers'')"
    unfolding segment_customer_def by auto
  have mono: "s \<le> t \<longrightarrow> segment_tier (segment_customer s) \<le> segment_tier (segment_customer t)"
    by (simp add: segment_tier_customer)
  have rows: "perform_rfm_analysis df = Inr rfm \<longrightarrow>
      (\<forall>x \<in> set rfm. Segment x = segment_customer (RFM_Total_Score x))"
  proof (intro impI ballI)
    fix x assume "perform_rfm_analysis df = Inr rfm" "x \<in> set rfm"
    then obtain t r f m where "x = score_row t r f m"
      by (rule perform_rfm_analysis_row)
    then show "Segment x = segment_customer (RFM_Total_Score x)"
      by (simp add: score_row_def)
  qed
  from thresholds mono rows segment_customer_label show ?thesis by blast
qed

theorem segment_customer_step_witness:
  "(13::int) \<le> 13 \<and> segment_customer 13 = ''Best Customers'' \<and>
   (10::int) \<le> 12 \<and> segment_customer 12 = ''Loyal Customers'' \<and>
   (6::int) \<le> 9 \<and> segment_customer 9 = ''Potential/At-Risk'' \<and>
   (5::int) < 6 \<and> segment_customer 5 = ''Lost Customers'' \<and>
   (9::int) \<le> 13 \<and> segment_tier (segment_customer 9) \<le> segment_tier (segment_customer 13) \<and>
   perform_rfm_analysis example_clean = Inr example_scored \<and>
   Segment (hd example_scored) = segment_customer (RFM_Total_Score (hd example_scored))"
proof -
  have mem: "hd example_scored \<in> set example_scored"
    by (simp add: example_scored_def)
  have best: "segment_customer 13 = ''Best Customers''"
    using segment_customer_step [of 13 13 example_clean example_scored] by simp
  have loyal: "segment_customer 12 = ''Loyal Customers''"
    using segment_customer_step [of 12 12 example_clean example_scored] by simp
  have risk: "segment_customer 9 = ''Potential/At-Risk''"
    using segment_customer_step [of 9 13 example_clean example_scored] by simp
  have lost: "segment_customer 5 = ''Lost Customers''"
    using segment_customer_step [of 5 5 example_clean example_scored] by simp
  have mono: "segment_tier (segment_customer 9) \<le> segment_tier (segment_customer 13)"
    using segment_customer_step [of 9 13 example_clean example_scored] by linarith
  have row: "Segment (hd example_scored) = segment_customer (RFM_Total_Score (hd example_scored))"
    using segment_customer_step [of 5 5 example_clean example_scored] example_scored_eq mem
    by (elim conjE) (erule impE, assumption, erule bspec, assumption)
  show ?thesis
    by (intro conjI best loyal risk lost mono row example_scored_eq) simp_all
qed

text \<open>
  Claim C10. The segment mapping is total over the integers: every score, also one outside
  3 to 15, gets exactly one of the four (distinct) labels, and every score below 6 gets
  \<^verbatim>\<open>Lost Customers\<close>.
\<close>

theorem segment_customer_total:
  "distinct segment_labels \<and> length segment_labels = 4 \<and>
   (\<exists>!l. l \<in> set segment_labels \<and> segment_customer s = l) \<and>
   (s < 6 \<longrightarrow> segment_customer s = ''Lost Customers'')"
proof -
  have "length segment_labels = 4" by (simp add: segment_labels_def)
  moreover have "\<exists>!l. l \<in> set segment_labels \<and> segment_customer s = l"
    by (simp only: ex1_member segment_customer_label)
  moreover have "s < 6 \<longrightarrow> segment_customer s = ''Lost Customers''"
    unfolding segment_customer_def by auto
  ultimately show ?thesis using segment_labels_distinct by blast
qed

theorem segment_customer_total_witness:
  "(- 7::int) < 6 \<and> segment_customer (- 7) = ''Lost Customers'' \<and>
   (2::int) < 6 \<and> segment_customer 2 = ''Lost Customers''"
  using segment_customer_total [of "- 7"] segment_customer_total [of 2] by simp

subsection \<open>Cleaning\<close>

text \<open>
  Claim C2. In every row of the frame that \<^verbatim>\<open>clean_and_prepare_data\<close> returns, the
  quantity and the unit price are positive and \<^verbatim>\<open>Sales\<close> is their product.
\<close>

theorem cleaned_rows_valid:
  assumes "snd (clean_and_prepare_data fs file_path) = Some df_cleaned"
    and "r \<in> set df_cleaned"
  shows "0 < Quantity r \<and> 0 < UnitPrice r \<and> Sales r = real_of_int (Quantity r) * UnitPrice r"
proof -
  from assms(1) obtain df where "df_cleaned = clean_frame_of df"
    by (auto simp add: clean_and_prepare_data_def Let_def split: option.splits)
  with assms(2) show ?thesis
    by (auto simp add: clean_frame_of_def add_Sales_def valid_entry_def)
qed

theorem cleaned_rows_valid_witness:
  "snd (clean_and_prepare_data example_fs FILE_NAME) = Some example_clean \<and>
   hd example_clean \<in> set example_clean \<and>
   0 < Quantity (hd example_clean) \<and> 0 < UnitPrice (hd example_clean) \<and>
   Sales (hd example_clean) =
     real_of_int (Quantity (hd example_clean)) * UnitPrice (hd example_clean)"
proof -
  have 1: "snd (clean_and_prepare_data example_fs FILE_NAME) = Some example_clean"
    by (simp add: example_load)
  have 2: "hd example_clean \<in> set example_clean"
    by (simp add: example_clean_def)
  from cleaned_rows_valid [OF 1 2] 1 2 show ?thesis by blast
qed

subsection \<open>The run and its outputs\<close>

lemma example_main:
  "main example_fs =
     \<lparr> printed = [Rows_remaining 3, Saved ''monthly_sales_trend.png'',
         Saved ''top_10_products.png'', Saved ''rfm_segmentation_pie.png'',
         Saved ''rfm_segmentation_data.csv'', Workflow_complete],
       written = [(''monthly_sales_trend.png'', Line_chart (monthly_sales example_clean)),
         (''top_10_products.png'', Bar_chart (top_10_products example_clean)),
         (''rfm_segmentation_pie.png'', Pie_chart (value_counts (map Segment example_scored))),
         (''rfm_segmentation_data.csv'', Csv_table example_scored)],
       uncaught = None \<rparr>"
  by (simp add: main_def example_load example_scored_eq plot_and_save_analysis_def)

text \<open>
  Claim C6. When the input file is absent, the loader reports it and returns \<^verbatim>\<open>None\<close>,
  and the run ends having written no file. When the file is present and the run ends
  without an exception, the three charts and the RFM table have been written.
\<close>

theorem main_outputs:
  "(fs FILE_NAME = None \<longrightarrow>
      clean_and_prepare_data fs FILE_NAME = ([File_not_found FILE_NAME], None) \<and>
      printed (main fs) = [File_not_found FILE_NAME] \<and> written (main fs) = []) \<and>
   (fs FILE_NAME \<noteq> None \<and> uncaught (main fs) = None \<longrightarrow>
      map fst (written (main fs)) =
        [''monthly_sales_trend.png'', ''top_10_products.png'', ''rfm_segmentation_pie.png'',
         ''rfm_segmentation_data.csv''])"
  by (auto simp add: main_def clean_and_prepare_data_def plot_and_save_analysis_def Let_def
      split: option.splits sum.splits)

theorem main_outputs_witness:
  "Map.empty FILE_NAME = None \<and>
   clean_and_prepare_data Map.empty FILE_NAME = ([File_not_found FILE_NAME], None) \<and>
   printed (main Map.empty) = [File_not_found FILE_NAME] \<and> written (main Map.empty) = [] \<and>
   example_fs FILE_NAME \<noteq> None \<and> uncaught (main example_fs) = None \<and>
   map fst (written (main example_fs)) =
     [''monthly_sales_trend.png'', ''top_10_products.png'', ''rfm_segmentation_pie.png'',
      ''rfm_segmentation_data.csv'']"
proof -
  have 1: "example_fs FILE_NAME \<noteq> None" by (simp add: example_fs_def)
  have 2: "uncaught (main example_fs) = None" by (simp add: example_main)
  from main_outputs [of Map.empty] main_outputs [of example_fs] 1 2 show ?thesis by simp
qed

subsection \<open>Dropped rows\<close>

lemma clean_frame_of_dropped:
  assumes "CustomerID r = None \<or> Quantity r \<le> 0 \<or> UnitPrice r \<le> 0"
  shows "clean_frame_of (xs @ r # ys) = clean_frame_of (xs @ ys)"
  using assms
  by (auto simp add: clean_frame_of_def dropna_CustomerID_def valid_entry_def
      astype_int_CustomerID_def)

text \<open>
  Claim C8. A row that cleaning drops (no customer id, or a quantity or unit price that is
  not positive) contributes to nothing downstream: with or without it the cleaned frame, the
  RFM metrics, the scored table, the monthly and the per-product revenue sums, and the whole
  run with everything it writes are the same.
\<close>

theorem dropped_rows_contribute_nothing:
  assumes "CustomerID r = None \<or> Quantity r \<le> 0 \<or> UnitPrice r \<le> 0"
  shows "clean_frame_of (xs @ r # ys) = clean_frame_of (xs @ ys) \<and>
         rfm_table (clean_frame_of (xs @ r # ys)) = rfm_table (clean_frame_of (xs @ ys)) \<and>
         perform_rfm_analysis (clean_frame_of (xs @ r # ys)) =
           perform_rfm_analysis (clean_frame_of (xs @ ys)) \<and>
         monthly_sales (clean_frame_of (xs @ r # ys)) = monthly_sales (clean_frame_of (xs @ ys)) \<and>
         product_sales (clean_frame_of (xs @ r # ys)) = product_sales (clean_frame_of (xs @ ys)) \<and>
         main (fs(FILE_NAME \<mapsto> xs @ r # ys)) = main (fs(FILE_NAME \<mapsto> xs @ ys))"
  by (simp add: clean_frame_of_dropped [OF assms] main_def clean_and_prepare_data_def)

theorem dropped_rows_contribute_nothing_witness:
  "Quantity (example_raw ! 3) = - 3 \<and> CustomerID (example_raw ! 2) = None \<and>
   main (Map.empty(FILE_NAME \<mapsto> take 3 example_raw @ example_raw ! 3 # drop 4 example_raw)) =
     main (Map.empty(FILE_NAME \<mapsto> take 3 example_raw @ drop 4 example_raw)) \<and>
   product_sales (clean_frame_of (take 2 example_raw @ example_raw ! 2 # drop 3 example_raw)) =
     product_sales (clean_frame_of (take 2 example_raw @ drop 3 example_raw))"
proof -
  have 1: "Quantity (example_raw ! 3) = - 3" and 2: "CustomerID (example_raw ! 2) = None"
    by (simp_all add: example_raw_def)
  have a: "CustomerID (example_raw ! 3) = None \<or> Quantity (example_raw ! 3) \<le> 0 \<or>
      UnitPrice (example_raw ! 3) \<le> 0"
    using 1 by simp
  have b: "CustomerID (example_raw ! 2) = None \<or> Quantity (example_raw ! 2) \<le> 0 \<or>
      UnitPrice (example_raw ! 2) \<le> 0"
    using 2 by simp
  from dropped_rows_contribute_nothing [OF a, of "take 3 example_raw" "drop 4 example_raw" Map.empty]
    dropped_rows_contribute_nothing [OF b, of "take 2 example_raw" "drop 3 example_raw" Map.empty]
    1 2 show ?thesis by blast
qed

subsection \<open>The grouped table\<close>

lemma groupby_keys_set [simp]: "set (groupby_keys key df) = key ` set df"
  by (simp add: groupby_keys_def)

lemma groupby_keys_distinct [simp]: "distinct (groupby_keys key df)"
  by (simp add: groupby_keys_def)


lemma CustomerID_rfm_aggregate [simp]: "CustomerID (rfm_aggregate s df c) = c"
  by (simp add: rfm_aggregate_def Let_def)

lemma rfm_table_keys:
  assumes "rfm_table df = Inr tab"
  shows "map CustomerID tab = groupby_keys CustomerID df"
proof (cases "df = []")
  case True
  with assms show ?thesis
    by (simp add: rfm_table_def snapshot_date_def groupby_keys_def)
next
  case False
  with assms show ?thesis
    by (auto simp add: rfm_table_def snapshot_date_def Let_def comp_def split: if_splits)
qed

lemma rfm_table_row:
  assumes "rfm_table df = Inr tab" "x \<in> set tab"
  shows "df \<noteq> [] \<and> CustomerID x \<in> CustomerID ` set df \<and>
         x = rfm_aggregate (Max (set (map InvoiceDate df)) + day_ns) df (CustomerID x)"
proof (cases "df = []")
  case True
  with assms show ?thesis
    by (simp add: rfm_table_def snapshot_date_def)
next
  case False
  with assms show ?thesis
    by (auto simp add: rfm_table_def snapshot_date_def Let_def split: if_splits)
qed

lemma rfm_table_total:
  assumes "df \<noteq> []" "Max (set (map InvoiceDate df)) + day_ns \<le> timestamp_max"
  shows "rfm_table df =
     Inr (map (rfm_aggregate (Max (set (map InvoiceDate df)) + day_ns) df)
            (groupby_keys CustomerID df))"
  using assms by (simp add: rfm_table_def snapshot_date_def Let_def)

lemma Recency_rfm_aggregate:
  assumes "c \<in> CustomerID ` set df"
  shows "1 \<le> Recency (rfm_aggregate (Max (set (map InvoiceDate df)) + day_ns) df c)"
proof -
  let ?g = "get_group CustomerID df c"
  from assms have ne: "set (map InvoiceDate ?g) \<noteq> {}"
    by (auto simp add: get_group_def filter_empty_conv)
  have sub: "set (map InvoiceDate ?g) \<subseteq> set (map InvoiceDate df)"
    by (auto simp add: get_group_def)
  have "Max (set (map InvoiceDate ?g)) \<le> Max (set (map InvoiceDate df))"
    by (rule Max_mono [OF sub ne]) simp
  then have "day_ns \<le> Max (set (map InvoiceDate df)) + day_ns - Max (set (map InvoiceDate ?g))"
    by simp
  then have "day_ns div day_ns
      \<le> (Max (set (map InvoiceDate df)) + day_ns - Max (set (map InvoiceDate ?g))) div day_ns"
    by (rule zdiv_mono1) (simp add: day_ns_def)
  then show ?thesis
    by (simp add: rfm_aggregate_def Let_def day_ns_def)
qed

lemma perform_rfm_analysis_columns:
  assumes "perform_rfm_analysis df = Inr out"
  obtains tab where "rfm_table df = Inr tab"
    "map CustomerID out = map CustomerID tab"
    "map Recency out = map Recency tab"
    "map Frequency out = map Frequency tab"
    "map Monetary out = map Monetary tab"
proof -
  from assms obtain tab r f m where tab: "rfm_table df = Inr tab" and
    out: "out = map (\<lambda>i. score_row (tab ! i) (r ! i) (f ! i) (m ! i)) [0..<length tab]"
    by (rule perform_rfm_analysis_Inr)
  have "map CustomerID out = map CustomerID tab" "map Recency out = map Recency tab"
    "map Frequency out = map Frequency tab" "map Monetary out = map Monetary tab"
    unfolding out by (auto intro!: nth_equalityI simp add: score_row_def)
  with tab that show thesis by blast
qed

text \<open>
  Claim C3. For a non-empty cleaned frame the snapshot date of the engine is the latest
  invoice date plus one day (and it is computed whenever that sum is a representable
  timestamp), so that the Recency of every customer, in the grouped table and in the table
  the engine returns, is at least 1.
\<close>

theorem snapshot_date_and_recency:
  assumes "df \<noteq> []"
  shows "(\<forall>s. snapshot_date df = Inr s \<longrightarrow> s = Some (Max (set (map InvoiceDate df)) + day_ns)) \<and>
         (Max (set (map InvoiceDate df)) + day_ns \<le> timestamp_max \<longrightarrow>
            snapshot_date df = Inr (Some (Max (set (map InvoiceDate df)) + day_ns)) \<and>
            (\<exists>tab. rfm_table df = Inr tab \<and> tab \<noteq> [])) \<and>
         (\<forall>tab. rfm_table df = Inr tab \<longrightarrow> (\<forall>x \<in> set tab. 1 \<le> Recency x)) \<and>
         (\<forall>rfm. perform_rfm_analysis df = Inr rfm \<longrightarrow> (\<forall>x \<in> set rfm. 1 \<le> Recency x))"
proof (intro conjI allI impI ballI)
  fix s assume "snapshot_date df = Inr s"
  with assms show "s = Some (Max (set (map InvoiceDate df)) + day_ns)"
    by (auto simp add: snapshot_date_def Let_def split: if_splits)
next
  assume "Max (set (map InvoiceDate df)) + day_ns \<le> timestamp_max"
  with assms show "snapshot_date df = Inr (Some (Max (set (map InvoiceDate df)) + day_ns))"
    by (simp add: snapshot_date_def Let_def)
next
  assume "Max (set (map InvoiceDate df)) + day_ns \<le> timestamp_max"
  with assms have "rfm_table df =
     Inr (map (rfm_aggregate (Max (set (map InvoiceDate df)) + day_ns) df)
            (groupby_keys CustomerID df))"
    by (rule rfm_table_total)
  moreover from assms have "groupby_keys CustomerID df \<noteq> []"
    by (metis groupby_keys_set image_is_empty set_empty)
  ultimately show "\<exists>tab. rfm_table df = Inr tab \<and> tab \<noteq> []"
    by simp
next
  fix tab x assume "rfm_table df = Inr tab" "x \<in> set tab"
  then show "1 \<le> Recency x"
    using rfm_table_row Recency_rfm_aggregate by metis
next
  fix rfm x assume run: "perform_rfm_analysis df = Inr rfm" and x: "x \<in> set rfm"
  from run obtain tab where tab: "rfm_table df = Inr tab" and
    rec: "map Recency rfm = map Recency tab"
    by (rule perform_rfm_analysis_columns)
  from x have "Recency x \<in> set (map Recency rfm)" by simp
  with rec obtain y where "y \<in> set tab" "Recency x = Recency y" by auto
  with tab show "1 \<le> Recency x"
    using rfm_table_row Recency_rfm_aggregate by metis
qed

theorem snapshot_date_and_recency_witness:
  "example_clean \<noteq> [] \<and>
   snapshot_date example_clean = Inr (Some (Max (set (map InvoiceDate example_clean)) + day_ns)) \<and>
   Max (set (map InvoiceDate example_clean)) + day_ns = 1291334400000000005 \<and>
   rfm_table example_clean = Inr example_metrics \<and>
   1 \<le> Recency (example_metrics ! 0) \<and> 1 \<le> Recency (example_metrics ! 1) \<and>
   perform_rfm_analysis example_clean = Inr example_scored \<and>
   1 \<le> Recency (example_scored ! 0) \<and> 1 \<le> Recency (example_scored ! 1)"
proof -
  have ne: "example_clean \<noteq> []"
    by (simp add: example_clean_def)
  note main_fact = snapshot_date_and_recency [OF ne]
  have snap: "snapshot_date example_clean =
      Inr (Some (Max (set (map InvoiceDate example_clean)) + day_ns))"
    using conjunct1 [OF main_fact, rule_format, OF example_snapshot] example_snapshot
    by simp
  have val: "Max (set (map InvoiceDate example_clean)) + day_ns = 1291334400000000005"
    using snap example_snapshot by simp
  have m0: "example_metrics ! 0 \<in> set example_metrics"
    and m1: "example_metrics ! 1 \<in> set example_metrics"
    by (simp_all add: example_metrics_def)
  have s0: "example_scored ! 0 \<in> set example_scored"
    and s1: "example_scored ! 1 \<in> set example_scored"
    by (simp_all add: example_scored_def)
  from main_fact example_metrics_eq m0 m1
  have r: "1 \<le> Recency (example_metrics ! 0)" "1 \<le> Recency (example_metrics ! 1)"
    by blast+
  from main_fact example_scored_eq s0 s1
  have r': "1 \<le> Recency (example_scored ! 0)" "1 \<le> Recency (example_scored ! 1)"
    by blast+
  show ?thesis
    by (intro conjI ne snap val example_metrics_eq r example_scored_eq r')
qed

subsection \<open>Scores\<close>

lemma searchsorted_left_le: "searchsorted_left bins v \<le> length bins"
  by (simp add: searchsorted_left_def length_takeWhile_le)

lemma qcut_label:
  assumes "qcut x q ls = Inr cats" "Some v \<in> set cats"
  shows "v \<in> set ls"
proof -
  define bins where "bins = qcut_bins x q"
  define ids where "ids w = (if w = hd bins then 1 else searchsorted_left bins w)" for w
  from assms(1) have len: "length ls = length bins - 1"
    and cats: "cats = map (\<lambda>w. if ids w = length bins \<or> ids w = 0 then None
                                 else Some (ls ! (ids w - 1))) x"
    by (auto simp add: qcut_def Let_def bins_def ids_def split: if_splits)
  from assms(2) have "Some v \<in> (\<lambda>w. if ids w = length bins \<or> ids w = 0 then None
                                 else Some (ls ! (ids w - 1))) ` set x"
    unfolding cats by simp
  then obtain w where
    w: "Some v = (if ids w = length bins \<or> ids w = 0 then None else Some (ls ! (ids w - 1)))"
    by (rule imageE)
  then have ok: "ids w \<noteq> length bins" "ids w \<noteq> 0" and v: "v = ls ! (ids w - 1)"
    by (simp_all split: if_splits)
  have "length bins = q + 1" by (simp add: bins_def qcut_bins_def)
  then have "ids w \<le> length bins"
    using searchsorted_left_le [of bins w] by (simp add: ids_def)
  with ok len have "ids w - 1 < length ls" by simp
  with v show ?thesis by simp
qed

text \<open>
  Claim C4. In every row of the table the engine returns, the three scores are integers from
  1 to 5, the total score is their sum, and it lies between 3 and 15.
\<close>

theorem scores_in_range:
  assumes "perform_rfm_analysis df = Inr rfm" and "x \<in> set rfm"
  shows "R_Score x \<in> {1..5} \<and> F_Score x \<in> {1..5} \<and> M_Score x \<in> {1..5} \<and>
         RFM_Total_Score x = R_Score x + F_Score x + M_Score x \<and>
         3 \<le> RFM_Total_Score x \<and> RFM_Total_Score x \<le> 15"
proof -
  from assms(1) obtain tab r f m where
    rc: "qcut (map (\<lambda>x. real_of_int (Recency x)) tab) 5 [5, 4, 3, 2, 1] = Inr (map Some r)" and
    fc: "qcut (rank_first (map Frequency tab)) 5 [1, 2, 3, 4, 5] = Inr (map Some f)" and
    mc: "qcut (map Monetary tab) 5 [1, 2, 3, 4, 5] = Inr (map Some m)" and
    len: "length r = length tab" "length f = length tab" "length m = length tab" and
    out: "rfm = map (\<lambda>i. score_row (tab ! i) (r ! i) (f ! i) (m ! i)) [0..<length tab]"
    by (rule perform_rfm_analysis_Inr)
  from assms(2) out obtain i where i: "i < length tab"
    and x: "x = score_row (tab ! i) (r ! i) (f ! i) (m ! i)"
    by auto
  from i len have "Some (r ! i) \<in> set (map Some r)" "Some (f ! i) \<in> set (map Some f)"
    "Some (m ! i) \<in> set (map Some m)"
    by simp_all
  then have "r ! i \<in> set [5, 4, 3, 2, 1]" "f ! i \<in> set [1, 2, 3, 4, 5]"
    "m ! i \<in> set [1, 2, 3, 4, 5]"
    using qcut_label [OF rc] qcut_label [OF fc] qcut_label [OF mc] by blast+
  then have "r ! i \<in> {1..5}" "f ! i \<in> {1..5}" "m ! i \<in> {1..5}"
    by auto
  with x show ?thesis
    by (simp add: score_row_def)
qed

theorem scores_in_range_witness:
  "perform_rfm_analysis example_clean = Inr example_scored \<and>
   example_scored ! 1 \<in> set example_scored \<and>
   R_Score (example_scored ! 1) \<in> {1..5} \<and> F_Score (example_scored ! 1) \<in> {1..5} \<and>
   M_Score (example_scored ! 1) \<in> {1..5} \<and>
   RFM_Total_Score (example_scored ! 1) =
     R_Score (example_scored ! 1) + F_Score (example_scored ! 1) + M_Score (example_scored ! 1) \<and>
   3 \<le> RFM_Total_Score (example_scored ! 1) \<and> RFM_Total_Score (example_scored ! 1) \<le> 15"
proof -
  have mem: "example_scored ! 1 \<in> set example_scored"
    by (simp add: example_scored_def)
  from scores_in_range [OF example_scored_eq mem] example_scored_eq mem
  show ?thesis by blast
qed

subsection \<open>One row for each customer\<close>

lemma filter_key_singleton:
  assumes "distinct (map f xs)" "c \<in> f ` set xs"
  shows "\<exists>x. filter (\<lambda>x. f x = c) xs = [x] \<and> x \<in> set xs"
  using assms
proof (induction xs)
  case Nil
  then show ?case by simp
next
  case (Cons a xs)
  show ?case
  proof (cases "f a = c")
    case True
    from Cons.prems have "f a \<notin> f ` set xs" by simp
    then have "\<And>x. x \<in> set xs \<Longrightarrow> f x \<noteq> c"
      unfolding True [symmetric] by (metis imageI)
    then have "filter (\<lambda>x. f x = c) xs = []"
      by (simp add: filter_empty_conv)
    with True show ?thesis by simp
  next
    case False
    with Cons show ?thesis by auto
  qed
qed

lemma nunique_card: "int (nunique (map f xs)) = int (card (f ` set xs))"
  by (simp add: nunique_def length_remdups_card_conv)


lemma Frequency_rfm_aggregate:
  "Frequency (rfm_aggregate s df c) = int (card (InvoiceNo ` {r \<in> set df. CustomerID r = c}))"
proof -
  have "set (get_group CustomerID df c) = {r \<in> set df. CustomerID r = c}"
    by (auto simp add: get_group_def)
  then show ?thesis
    by (simp add: rfm_aggregate_def Let_def nunique_card)
qed

lemma Monetary_rfm_aggregate:
  "Monetary (rfm_aggregate s df c) = sum_list (map Sales (filter (\<lambda>r. CustomerID r = c) df))"
  by (simp add: rfm_aggregate_def Let_def get_group_def)

lemma perform_rfm_analysis_nth:
  assumes "perform_rfm_analysis df = Inr out"
  shows "\<exists>tab. rfm_table df = Inr tab \<and> length out = length tab \<and>
           (\<forall>i<length tab. CustomerID (out ! i) = CustomerID (tab ! i) \<and>
              Recency (out ! i) = Recency (tab ! i) \<and>
              Frequency (out ! i) = Frequency (tab ! i) \<and>
              Monetary (out ! i) = Monetary (tab ! i))"
proof -
  from assms obtain tab r f m where tab: "rfm_table df = Inr tab" and
    out: "out = map (\<lambda>i. score_row (tab ! i) (r ! i) (f ! i) (m ! i)) [0..<length tab]"
    by (rule perform_rfm_analysis_Inr)
  have "length out = length tab"
    by (simp add: out)
  moreover have "\<forall>i<length tab. CustomerID (out ! i) = CustomerID (tab ! i) \<and>
      Recency (out ! i) = Recency (tab ! i) \<and>
      Frequency (out ! i) = Frequency (tab ! i) \<and>
      Monetary (out ! i) = Monetary (tab ! i)"
    by (simp add: out score_row_def)
  ultimately show ?thesis
    using tab by blast
qed

text \<open>
  Claim C7. Every customer id of the cleaned frame is the id of exactly one row of the table
  the engine returns; the Frequency of that row is the number of distinct invoice numbers of
  the customer's cleaned rows, and its Monetary is the sum of their \<^verbatim>\<open>Sales\<close>.
\<close>

theorem one_row_per_customer:
  assumes "perform_rfm_analysis (clean_frame_of raw) = Inr rfm"
    and "c \<in> CustomerID ` set (clean_frame_of raw)"
  shows "\<exists>x. filter (\<lambda>x. CustomerID x = c) rfm = [x] \<and>
           Frequency x =
             int (card (InvoiceNo ` {r \<in> set (clean_frame_of raw). CustomerID r = c})) \<and>
           Monetary x =
             sum_list (map Sales (filter (\<lambda>r. CustomerID r = c) (clean_frame_of raw)))"
proof -
  define df where "df = clean_frame_of raw"
  from assms(1) have "perform_rfm_analysis df = Inr rfm"
    by (simp only: df_def)
  from perform_rfm_analysis_nth [OF this] obtain tab where tab: "rfm_table df = Inr tab"
    and len: "length rfm = length tab"
    and cols: "\<forall>i<length tab. CustomerID (rfm ! i) = CustomerID (tab ! i) \<and>
              Recency (rfm ! i) = Recency (tab ! i) \<and>
              Frequency (rfm ! i) = Frequency (tab ! i) \<and>
              Monetary (rfm ! i) = Monetary (tab ! i)"
    by blast
  from cols have cid: "\<And>i. i < length tab \<Longrightarrow> CustomerID (rfm ! i) = CustomerID (tab ! i)"
    and frq: "\<And>i. i < length tab \<Longrightarrow> Frequency (rfm ! i) = Frequency (tab ! i)"
    and mon: "\<And>i. i < length tab \<Longrightarrow> Monetary (rfm ! i) = Monetary (tab ! i)"
    by simp_all
  have "map CustomerID rfm = map CustomerID tab"
    using len cid by (intro nth_equalityI) simp_all
  then have ids: "map CustomerID rfm = groupby_keys CustomerID df"
    by (simp only: rfm_table_keys [OF tab])
  have dist: "distinct (map CustomerID rfm)"
    by (simp only: ids groupby_keys_distinct)
  have "CustomerID ` set rfm = set (map CustomerID rfm)"
    by simp
  also have "\<dots> = CustomerID ` set df"
    by (simp only: ids groupby_keys_set)
  finally have "c \<in> CustomerID ` set rfm"
    using assms(2) by (simp only: df_def)
  with dist obtain x where one: "filter (\<lambda>x. CustomerID x = c) rfm = [x]" and x: "x \<in> set rfm"
    using filter_key_singleton [of CustomerID rfm c] by blast
  have "x \<in> set (filter (\<lambda>x. CustomerID x = c) rfm)"
    by (simp only: one list.set_intros)
  then have cx: "CustomerID x = c"
    by simp
  from x obtain i where i: "i < length rfm" and xi: "rfm ! i = x"
    by (auto simp add: in_set_conv_nth)
  from i len have i': "i < length tab" by simp
  then have "tab ! i \<in> set tab" by simp
  from rfm_table_row [OF tab this]
  have "tab ! i = rfm_aggregate (Max (set (map InvoiceDate df)) + day_ns) df (CustomerID (tab ! i))"
    by (rule conjunct2 [THEN conjunct2])
  moreover have "CustomerID (tab ! i) = c"
    using cid [OF i'] xi cx by simp
  ultimately have agg: "tab ! i = rfm_aggregate (Max (set (map InvoiceDate df)) + day_ns) df c"
    by simp
  have "Frequency x = Frequency (tab ! i)" "Monetary x = Monetary (tab ! i)"
    using frq [OF i'] mon [OF i'] xi by simp_all
  then have "Frequency x = int (card (InvoiceNo ` {r \<in> set df. CustomerID r = c}))"
    "Monetary x = sum_list (map Sales (filter (\<lambda>r. CustomerID r = c) df))"
    by (simp_all only: agg Frequency_rfm_aggregate Monetary_rfm_aggregate)
  with one show ?thesis
    unfolding df_def by blast
qed

theorem one_row_per_customer_witness:
  "perform_rfm_analysis (clean_frame_of example_raw) = Inr example_scored \<and>
   2 \<in> CustomerID ` set (clean_frame_of example_raw) \<and>
   (\<exists>x. filter (\<lambda>x. CustomerID x = 2) example_scored = [x] \<and>
      Frequency x =
        int (card (InvoiceNo ` {r \<in> set (clean_frame_of example_raw). CustomerID r = 2})) \<and>
      Monetary x =
        sum_list (map Sales (filter (\<lambda>r. CustomerID r = 2) (clean_frame_of example_raw))))"
proof -
  have run: "perform_rfm_analysis (clean_frame_of example_raw) = Inr example_scored"
    by (simp only: example_clean_eq example_scored_eq)
  have "CustomerID (example_clean ! 0) = 2" "example_clean ! 0 \<in> set example_clean"
    by (simp_all add: example_clean_def)
  then have mem: "2 \<in> CustomerID ` set (clean_frame_of example_raw)"
    unfolding example_clean_eq by (metis imageI)
  show ?thesis
    by (intro conjI run mem one_row_per_customer [OF run mem])
qed


subsection \<open>The quantile cut\<close>

lemma quantile_linear_lowest:
  assumes "x \<noteq> []"
  shows "quantile_linear x 0 q = sort x ! 0"
  by (simp add: quantile_linear_def Let_def)

lemma quantile_linear_highest:
  assumes "x \<noteq> []" "0 < q"
  shows "quantile_linear x q q = sort x ! (length x - 1)"
  using assms by (simp add: quantile_linear_def Let_def)

lemma sort_bounds:
  assumes "v \<in> set x"
  shows "sort x ! 0 \<le> v \<and> v \<le> sort x ! (length x - 1)"
proof -
  from assms have "v \<in> set (sort x)" by simp
  then obtain i where i: "i < length (sort x)" and v: "sort x ! i = v"
    unfolding in_set_conv_nth by blast
  have "sort x ! 0 \<le> sort x ! i"
    by (rule sorted_nth_mono) (use i in simp_all)
  moreover have "sort x ! i \<le> sort x ! (length x - 1)"
    by (rule sorted_nth_mono) (use i in simp_all)
  ultimately show ?thesis using v by simp
qed

lemma qcut_bins_length [simp]: "length (qcut_bins x q) = q + 1"
  by (simp add: qcut_bins_def)

lemma qcut_bins_hd: "x \<noteq> [] \<Longrightarrow> hd (qcut_bins x q) = sort x ! 0"
  by (simp add: qcut_bins_def upt_rec [of 0] quantile_linear_lowest)

lemma qcut_bins_last: "x \<noteq> [] \<Longrightarrow> 0 < q \<Longrightarrow> last (qcut_bins x q) = sort x ! (length x - 1)"
  by (simp add: qcut_bins_def last_map quantile_linear_highest)

lemma qcut_ids_in_range:
  assumes "v \<in> set x" "0 < q"
  defines "ids \<equiv> (if v = hd (qcut_bins x q) then 1 else searchsorted_left (qcut_bins x q) v)"
  shows "ids \<noteq> 0 \<and> ids \<noteq> length (qcut_bins x q)"
proof (cases "v = hd (qcut_bins x q)")
  case True
  with assms(2) show ?thesis by (simp add: ids_def)
next
  case False
  from assms(1) have ne: "x \<noteq> []" by auto
  let ?bins = "qcut_bins x q"
  have bne: "?bins \<noteq> []"
    by (simp add: qcut_bins_def)
  from sort_bounds [OF assms(1)] False have low: "hd ?bins < v"
    by (simp add: qcut_bins_hd [OF ne])
  from sort_bounds [OF assms(1)] have high: "\<not> last ?bins < v"
    by (simp add: qcut_bins_last [OF ne assms(2)])
  from bne low have "takeWhile (\<lambda>b. b < v) ?bins \<noteq> []"
    by (cases ?bins) simp_all
  then have 1: "searchsorted_left ?bins v \<noteq> 0"
    by (simp add: searchsorted_left_def)
  have "last ?bins \<in> set ?bins"
    using bne by (rule last_in_set)
  with high have "\<not> (\<forall>b \<in> set ?bins. b < v)"
    by blast
  then have "takeWhile (\<lambda>b. b < v) ?bins \<noteq> ?bins"
    by (simp add: takeWhile_eq_all_conv)
  then have "length (takeWhile (\<lambda>b. b < v) ?bins) \<noteq> length ?bins"
    by (metis takeWhile_eq_take take_all order_refl)
  then have 2: "searchsorted_left ?bins v \<noteq> length ?bins"
    by (simp add: searchsorted_left_def)
  from False 1 2 show ?thesis by (simp add: ids_def)
qed

text \<open>A cut into \<open>q\<close> bins raises, or gives every value one of its \<open>q\<close> distinct labels.\<close>

lemma qcut_cases:
  assumes "1 < q"
  shows "qcut x q ls = Inl ValueError \<or>
         (\<exists>cats. qcut x q ls = Inr cats \<and> length cats = length x \<and>
            set cats \<subseteq> Some ` set ls \<and> distinct ls \<and> length ls = q \<and>
            distinct (qcut_bins x q))"
proof (cases "qcut x q ls")
  case (Inl e)
  then show ?thesis by (cases e) (auto simp add: qcut_def Let_def split: if_splits)
next
  case (Inr cats)
  let ?bins = "qcut_bins x q"
  let ?ids = "\<lambda>v. if v = hd ?bins then 1 else searchsorted_left ?bins v"
  from Inr have ne: "x \<noteq> []" and dl: "distinct ls" and ll: "length ls = q"
    and rd: "\<not> (length (remdups ?bins) < length ?bins \<and> length ?bins \<noteq> 2)"
    and cats: "cats = map (\<lambda>v. if ?ids v = length ?bins \<or> ?ids v = 0 then None
                                 else Some (ls ! (?ids v - 1))) x"
    by (auto simp add: qcut_def Let_def split: if_splits)
  from rd assms have "length (remdups ?bins) = length ?bins"
    using length_remdups_leq [of ?bins] by simp
  then have db: "distinct ?bins"
    by (simp only: length_remdups_eq remdups_id_iff_distinct)
  have "set cats \<subseteq> Some ` set ls"
  proof
    fix c assume "c \<in> set cats"
    then obtain v where v: "v \<in> set x"
      and c: "c = (if ?ids v = length ?bins \<or> ?ids v = 0 then None
                   else Some (ls ! (?ids v - 1)))"
      unfolding cats by auto
    from assms have "0 < q" by simp
    from qcut_ids_in_range [OF v this]
    have ok: "?ids v \<noteq> 0" "?ids v \<noteq> length ?bins"
      by simp_all
    have "?ids v \<le> length ?bins"
      using searchsorted_left_le [of ?bins v] by simp
    with ok ll have "?ids v - 1 < length ls"
      by simp
    then have "ls ! (?ids v - 1) \<in> set ls"
      by (rule nth_mem)
    with c ok show "c \<in> Some ` set ls"
      by simp
  qed
  with Inr dl ll db show ?thesis
    using qcut_length [OF Inr] by blast
qed

subsection \<open>Ordinal ranks\<close>

lemma filter_less_eq_count:
  "length (filter (\<lambda>y. y < v) xs) + length (filter (\<lambda>y. y = v) xs) =
   length (filter (\<lambda>y. y \<le> v) xs)" for v :: "'a::linorder"
  by (induction xs) auto

lemma filter_le_less_mono:
  "a < b \<Longrightarrow> length (filter (\<lambda>y. y \<le> a) xs) \<le> length (filter (\<lambda>y. y < b) xs)"
  for a :: "'a::linorder"
  by (induction xs) auto

lemma take_equal_count:
  assumes "i < length xs"
  shows "Suc (length (filter (\<lambda>y. y = xs ! i) (take i xs)))
         \<le> length (filter (\<lambda>y. y = xs ! i) xs)"
proof -
  have "xs = take i xs @ xs ! i # drop (Suc i) xs"
    using assms by (rule id_take_nth_drop)
  then have "filter (\<lambda>y. y = xs ! i) xs =
      filter (\<lambda>y. y = xs ! i) (take i xs @ xs ! i # drop (Suc i) xs)"
    by simp
  then have "length (filter (\<lambda>y. y = xs ! i) xs) =
      length (filter (\<lambda>y. y = xs ! i) (take i xs)) + 1 +
      length (filter (\<lambda>y. y = xs ! i) (drop (Suc i) xs))"
    by simp
  then show ?thesis by simp
qed

lemma ordinal_rank_bounds:
  assumes "i < length xs"
  shows "1 \<le> ordinal_rank xs i \<and> ordinal_rank xs i \<le> length (filter (\<lambda>y. y \<le> xs ! i) xs)"
  using take_equal_count [OF assms] filter_less_eq_count [of "xs ! i" xs]
  by (simp add: ordinal_rank_def)

lemma ordinal_rank_le_length:
  assumes "i < length xs"
  shows "ordinal_rank xs i \<le> length xs"
  using ordinal_rank_bounds [OF assms] length_filter_le [of "\<lambda>y. y \<le> xs ! i" xs]
  by linarith

lemma ordinal_rank_less:
  assumes "i < length xs" "j < length xs" "xs ! i < xs ! j"
  shows "ordinal_rank xs i < ordinal_rank xs j"
proof -
  have "ordinal_rank xs i \<le> length (filter (\<lambda>y. y \<le> xs ! i) xs)"
    using ordinal_rank_bounds [OF assms(1)] by simp
  also have "\<dots> \<le> length (filter (\<lambda>y. y < xs ! j) xs)"
    using assms(3) by (rule filter_le_less_mono)
  also have "\<dots> < ordinal_rank xs j"
    by (simp add: ordinal_rank_def)
  finally show ?thesis .
qed

lemma ordinal_rank_tie:
  assumes "i < j" "j < length xs" "xs ! i = xs ! j"
  shows "ordinal_rank xs i < ordinal_rank xs j"
proof -
  let ?ys = "take j xs"
  from assms have i: "i < length ?ys" by simp
  from assms have eq: "?ys ! i = xs ! i" "take i ?ys = take i xs"
    by (simp_all add: min_def)
  from take_equal_count [OF i]
  have "Suc (length (filter (\<lambda>y. y = xs ! i) (take i xs)))
        \<le> length (filter (\<lambda>y. y = xs ! i) (take j xs))"
    by (simp only: eq)
  then show ?thesis
    by (simp add: ordinal_rank_def assms(3))
qed

lemma ordinal_rank_inj: "inj_on (ordinal_rank xs) {0..<length xs}"
proof (rule inj_onI)
  fix i j assume i: "i \<in> {0..<length xs}" and j: "j \<in> {0..<length xs}"
    and eq: "ordinal_rank xs i = ordinal_rank xs j"
  show "i = j"
  proof (rule ccontr)
    assume neq: "i \<noteq> j"
    consider "xs ! i < xs ! j" | "xs ! j < xs ! i" | "xs ! i = xs ! j" "i < j"
      | "xs ! i = xs ! j" "j < i"
      using neq by (metis less_linear)
    then show False
    proof cases
      case 1
      with i j have "ordinal_rank xs i < ordinal_rank xs j"
        by (simp add: ordinal_rank_less)
      with eq show False by simp
    next
      case 2
      with i j have "ordinal_rank xs j < ordinal_rank xs i"
        by (simp add: ordinal_rank_less)
      with eq show False by simp
    next
      case 3
      with j have "ordinal_rank xs i < ordinal_rank xs j"
        by (simp add: ordinal_rank_tie)
      with eq show False by simp
    next
      case 4
      with i have "ordinal_rank xs j < ordinal_rank xs i"
        by (simp add: ordinal_rank_tie)
      with eq show False by simp
    qed
  qed
qed

lemma ordinal_rank_image: "ordinal_rank xs ` {0..<length xs} = {1..length xs}"
proof (rule card_subset_eq)
  show "finite {1..length xs}" by simp
  show "ordinal_rank xs ` {0..<length xs} \<subseteq> {1..length xs}"
    using ordinal_rank_bounds ordinal_rank_le_length by fastforce
  show "card (ordinal_rank xs ` {0..<length xs}) = card {1..length xs}"
    by (simp add: card_image ordinal_rank_inj)
qed

text \<open>The ranks of a column of \<open>n\<close> entries are the numbers \<open>1, \<dots>, n\<close> in some order.\<close>

lemma ordinal_rank_mset:
  "mset (map (ordinal_rank xs) [0..<length xs]) = mset [1..<Suc (length xs)]"
proof -
  have "distinct (map (ordinal_rank xs) [0..<length xs])"
    by (simp add: distinct_map ordinal_rank_inj)
  moreover have "set (map (ordinal_rank xs) [0..<length xs]) = set [1..<Suc (length xs)]"
  proof -
    have "set (map (ordinal_rank xs) [0..<length xs]) = ordinal_rank xs ` {0..<length xs}"
      by simp
    also have "\<dots> = {1..length xs}"
      by (rule ordinal_rank_image)
    also have "\<dots> = set [1..<Suc (length xs)]"
      by auto
    finally show ?thesis .
  qed
  moreover have "distinct [1..<Suc (length xs)]"
    by simp
  ultimately show ?thesis
    using set_eq_iff_mset_eq_distinct by blast
qed

lemma sorted_map_real: "sorted xs \<Longrightarrow> sorted (map real xs)"
  by (induction xs) auto

lemma sort_rank_first: "sort (rank_first xs) = map real [1..<Suc (length xs)]"
proof (rule properties_for_sort)
  have "rank_first xs = map real (map (ordinal_rank xs) [0..<length xs])"
    by (simp add: rank_first_def)
  then have "mset (rank_first xs) = mset (map real (map (ordinal_rank xs) [0..<length xs]))"
    by (rule arg_cong)
  also have "\<dots> = image_mset real (mset (map (ordinal_rank xs) [0..<length xs]))"
    by (rule mset_map)
  also have "\<dots> = image_mset real (mset [1..<Suc (length xs)])"
    by (simp only: ordinal_rank_mset)
  also have "\<dots> = mset (map real [1..<Suc (length xs)])"
    by (rule mset_map [symmetric])
  finally show "mset (map real [1..<Suc (length xs)]) = mset (rank_first xs)"
    by (rule sym)
  show "sorted (map real [1..<Suc (length xs)])"
    by (intro sorted_map_real sorted_upt)
qed

lemma set_rank_first: "set (rank_first xs) = real ` {1..length xs}"
proof -
  have "set (rank_first xs) = real ` (ordinal_rank xs ` {0..<length xs})"
    by (auto simp add: rank_first_def)
  then show ?thesis by (simp only: ordinal_rank_image)
qed

lemma length_rank_first [simp]: "length (rank_first xs) = length xs"
  by (simp add: rank_first_def)

subsection \<open>The quantile edges of ranks\<close>

lemma nth_map_real_upt:
  "i < n \<Longrightarrow> map real [1..<Suc n] ! i = real i + 1"
  by (simp del: upt_Suc)

lemma div_mod_real: "real (m div 5) + real (m mod 5) / 5 = real m / 5"
proof -
  have "real m = real (5 * (m div 5) + m mod 5)"
    by simp
  also have "\<dots> = 5 * real (m div 5) + real (m mod 5)"
    by (simp only: of_nat_add of_nat_mult of_nat_numeral)
  finally show ?thesis by simp
qed

text \<open>Edge \<open>k\<close> of the cut of \<open>n\<close> ranks into 5 is \<open>1 + k (n - 1) / 5\<close>.\<close>

lemma quantile_linear_rank_first:
  assumes "xs \<noteq> []" "k \<le> 5"
  shows "quantile_linear (rank_first xs) k 5 = 1 + real (k * (length xs - 1)) / 5"
proof -
  define n where "n = length xs"
  define m where "m = k * (n - 1)"
  define lo where "lo = m div 5"
  define hi where "hi = min (lo + 1) (n - 1)"
  from assms(1) have n: "0 < n" by (simp add: n_def)
  from assms(2) have "m \<le> 5 * (n - 1)" by (simp add: m_def)
  then have lo: "lo \<le> n - 1" by (simp add: lo_def)
  with n have lo_n: "lo < n" and hi_n: "hi < n" by (simp_all add: hi_def)
  have q: "quantile_linear (rank_first xs) k 5 =
      map real [1..<Suc n] ! lo +
      (map real [1..<Suc n] ! hi - map real [1..<Suc n] ! lo) * (real (m mod 5) / 5)"
    by (simp add: quantile_linear_def Let_def sort_rank_first n_def m_def lo_def hi_def
        del: upt_Suc)
  have "quantile_linear (rank_first xs) k 5 =
      real lo + 1 + (real hi - real lo) * (real (m mod 5) / 5)"
    unfolding q by (simp only: nth_map_real_upt [OF lo_n] nth_map_real_upt [OF hi_n]) simp
  also have "\<dots> = 1 + (real lo + real (m mod 5) / 5)"
  proof (cases "lo < n - 1")
    case True
    then have "hi = lo + 1" by (simp add: hi_def)
    then show ?thesis by simp
  next
    case False
    with lo have eq: "lo = n - 1" by simp
    then have "hi = lo" by (simp add: hi_def)
    moreover have "m mod 5 = 0"
    proof -
      have "5 * lo + m mod 5 = m" by (simp add: lo_def)
      with eq \<open>m \<le> 5 * (n - 1)\<close> show ?thesis by simp
    qed
    ultimately show ?thesis by simp
  qed
  also have "\<dots> = 1 + real m / 5"
    by (simp only: lo_def div_mod_real)
  finally show ?thesis by (simp only: m_def n_def)
qed

lemma qcut_bins_rank_first:
  assumes "xs \<noteq> []"
  shows "qcut_bins (rank_first xs) 5 = map (\<lambda>k. 1 + real (k * (length xs - 1)) / 5) [0..<6]"
  unfolding qcut_bins_def
  by (rule map_cong) (use assms in \<open>simp_all add: quantile_linear_rank_first\<close>)

lemma qcut_bins_rank_first_nth:
  assumes "xs \<noteq> []" "k < 6"
  shows "qcut_bins (rank_first xs) 5 ! k = 1 + real (k * (length xs - 1)) / 5"
  using assms(2) by (simp add: qcut_bins_rank_first [OF assms(1)] del: upt_Suc)

lemma qcut_bins_rank_first_distinct:
  assumes "2 \<le> length xs"
  shows "distinct (qcut_bins (rank_first xs) 5)"
proof -
  from assms have ne: "xs \<noteq> []" by auto
  have "inj_on (\<lambda>k. 1 + real (k * (length xs - 1)) / 5) (set [0..<6])"
    using assms by (auto simp add: inj_on_def simp del: upt_Suc)
  then show ?thesis
    by (simp add: qcut_bins_rank_first [OF ne] distinct_map del: upt_Suc)
qed

text \<open>With two customers or more, the cut of the ranks does not raise.\<close>

lemma qcut_rank_first_Inr:
  assumes "2 \<le> length xs"
  shows "\<exists>cats. qcut (rank_first xs) 5 [1, 2, 3, 4, 5] = Inr cats \<and>
           length cats = length xs \<and> set cats \<subseteq> Some ` {1..5}"
proof -
  from assms have ne: "rank_first xs \<noteq> []"
    by (auto simp add: rank_first_def)
  have d: "length (remdups (qcut_bins (rank_first xs) 5)) = length (qcut_bins (rank_first xs) 5)"
    using qcut_bins_rank_first_distinct [OF assms] by (simp only: distinct_remdups_id)
  have "qcut (rank_first xs) 5 [1, 2, 3, 4, 5] \<noteq> Inl ValueError"
    using ne d by (simp add: qcut_def Let_def)
  moreover have "set [1, 2, 3, 4, 5::int] = {1..5}"
    by auto
  ultimately show ?thesis
    using qcut_cases [of 5 "rank_first xs" "[1, 2, 3, 4, 5]"] by auto
qed

subsection \<open>Five non-empty bins\<close>

lemma rank_edge_gap:
  fixes n j i :: nat
  assumes "5 \<le> n" "1 \<le> j" "j \<le> 5" "i < j" "0 < (j * (n - 1)) div 5"
  shows "i * (n - 1) < 5 * ((j * (n - 1)) div 5)"
proof (cases "n = 5")
  case True
  with assms(5) have "0 < (j * 4) div 5" by simp
  then have "j \<noteq> 1" by (intro notI) simp
  with assms(2,3) consider "j = 2" | "j = 3" | "j = 4" | "j = 5" by linarith
  then have "i * 4 < 5 * ((j * 4) div 5)"
    using assms(4) by cases simp_all
  with True show ?thesis by simp
next
  case False
  define d where "d = n - 1"
  define J where "J = j * d"
  from False assms(1) have d: "5 \<le> d" by (simp add: d_def)
  from assms(4) have "Suc i \<le> j" by simp
  then have "Suc i * d \<le> j * d" by (rule mult_le_mono1)
  then have le: "i * d + d \<le> J" by (simp add: J_def)
  have "5 * (J div 5) + J mod 5 = J" by simp
  moreover have "J mod 5 < 5" by simp
  ultimately have "i * d < 5 * (J div 5)" using le d by linarith
  then show ?thesis by (simp only: d_def J_def)
qed

lemma searchsorted_left_eq:
  assumes "j \<le> length bins" "\<And>i. i < j \<Longrightarrow> bins ! i < v"
    "j < length bins \<Longrightarrow> \<not> bins ! j < v"
  shows "searchsorted_left bins v = j"
proof -
  have "takeWhile (\<lambda>b. b < v) bins = take j bins"
    by (rule takeWhile_eq_take_P_nth) (use assms in auto)
  with assms(1) show ?thesis
    by (simp add: searchsorted_left_def)
qed

lemma qcut_Inr_map:
  assumes "qcut x q ls = Inr cats"
  shows "cats = map (\<lambda>v.
           (let ids = (if v = hd (qcut_bins x q) then 1 else searchsorted_left (qcut_bins x q) v)
            in if ids = length (qcut_bins x q) \<or> ids = 0 then None
               else Some (ls ! (ids - 1)))) x"
  using assms by (auto simp add: qcut_def Let_def split: if_splits)

text \<open>The rank \<open>1 + j (n - 1) div 5\<close> falls in bin \<open>j\<close>.\<close>

lemma rank_in_bin:
  assumes n: "5 \<le> length xs" and j: "1 \<le> j" "j \<le> 5"
  defines "v \<equiv> real (1 + (j * (length xs - 1)) div 5)"
  defines "bins \<equiv> qcut_bins (rank_first xs) 5"
  shows "v \<in> set (rank_first xs) \<and> (if v = hd bins then 1 else searchsorted_left bins v) = j"
proof -
  define d where "d = length xs - 1"
  from n have ne: "xs \<noteq> []" by auto
  have nth: "bins ! k = 1 + real (k * d) / 5" if "k < 6" for k
    unfolding bins_def d_def using ne that by (rule qcut_bins_rank_first_nth)
  have v': "v = real (1 + (j * d) div 5)"
    by (simp only: v_def d_def)
  have len: "length bins = 6" by (simp add: bins_def)
  have hd: "hd bins = 1"
    using nth [of 0] len by (cases bins) simp_all
  from j have "j * d \<le> 5 * d" by simp
  then have "(j * d) div 5 \<le> (5 * d) div 5" by (rule div_le_mono)
  then have "(j * d) div 5 \<le> d" by simp
  with n have "1 + (j * d) div 5 \<in> {1..length xs}"
    by (simp add: d_def)
  then have mem: "v \<in> set (rank_first xs)"
    unfolding v' set_rank_first by (rule imageI)
  have "(if v = hd bins then 1 else searchsorted_left bins v) = j"
  proof (cases "(j * d) div 5 = 0")
    case True
    from True have "j * d < 5" by simp
    moreover from n have "4 \<le> d" by (simp add: d_def)
    then have "j * 4 \<le> j * d" by (rule mult_le_mono2)
    ultimately have "j * 4 < 5" by (rule le_less_trans [rotated])
    then have "j = 1" using j by simp
    moreover from True have "v = 1" by (simp add: v')
    ultimately show ?thesis by (simp add: hd)
  next
    case False
    then have pos: "0 < (j * d) div 5" by simp
    then have "v \<noteq> hd bins" by (simp add: hd v')
    moreover have "searchsorted_left bins v = j"
    proof (rule searchsorted_left_eq)
      show "j \<le> length bins" using j len by simp
    next
      fix i assume i: "i < j"
      with j have "i < 6" by simp
      from rank_edge_gap [OF n j i] pos
      have "i * d < 5 * ((j * d) div 5)" by (simp add: d_def)
      then have "real (i * d) < real (5 * ((j * d) div 5))"
        by (simp only: of_nat_less_iff)
      then have "real (i * d) / 5 < real ((j * d) div 5)"
        by simp
      then show "bins ! i < v"
        by (simp add: nth [OF \<open>i < 6\<close>] v')
    next
      from j have "j < 6" by simp
      have "5 * ((j * d) div 5) \<le> j * d" by simp
      then have "real (5 * ((j * d) div 5)) \<le> real (j * d)"
        by (simp only: of_nat_le_iff)
      then have "real ((j * d) div 5) \<le> real (j * d) / 5"
        by simp
      then show "\<not> bins ! j < v"
        by (simp add: nth [OF \<open>j < 6\<close>] v')
    qed
    ultimately show ?thesis by simp
  qed
  with mem show ?thesis by simp
qed

lemma label_nth: "1 \<le> j \<Longrightarrow> j \<le> 5 \<Longrightarrow> [1, 2, 3, 4, 5] ! (j - 1) = int j"
proof -
  assume "1 \<le> j" "j \<le> 5"
  then consider "j = 1" | "j = 2" | "j = 3" | "j = 4" | "j = 5" by linarith
  then show ?thesis by cases simp_all
qed

text \<open>With five customers or more, every one of the five bins of the ranks is taken.\<close>

lemma qcut_rank_first_all_bins:
  assumes "5 \<le> length xs"
  shows "\<exists>cats. qcut (rank_first xs) 5 [1, 2, 3, 4, 5] = Inr cats \<and> set cats = Some ` {1..5}"
proof -
  from assms have "2 \<le> length xs" by simp
  from qcut_rank_first_Inr [OF this] obtain cats where
    cats: "qcut (rank_first xs) 5 [1, 2, 3, 4, 5] = Inr cats" and sub: "set cats \<subseteq> Some ` {1..5}"
    by blast
  define bins where "bins = qcut_bins (rank_first xs) 5"
  define g where "g = (\<lambda>v. (let ids = (if v = hd bins then 1 else searchsorted_left bins v)
            in if ids = length bins \<or> ids = 0 then None
               else Some ([1, 2, 3, 4, 5::int] ! (ids - 1))))"
  have map: "cats = map g (rank_first xs)"
    unfolding g_def bins_def using cats by (rule qcut_Inr_map)
  have len: "length bins = 6" by (simp add: bins_def)
  have "Some ` {1..5} \<subseteq> set cats"
  proof
    fix c :: "int option" assume "c \<in> Some ` {1..5}"
    then obtain l :: int where c: "c = Some l" and l: "1 \<le> l" "l \<le> 5" by auto
    define j where "j = nat l"
    from l have j: "1 \<le> j" "j \<le> 5" and lj: "l = int j" by (simp_all add: j_def)
    define v where "v = real (1 + (j * (length xs - 1)) div 5)"
    from rank_in_bin [OF assms j] have mem: "v \<in> set (rank_first xs)"
      and ids: "(if v = hd bins then 1 else searchsorted_left bins v) = j"
      by (simp_all only: v_def bins_def)
    have "g v = Some ([1, 2, 3, 4, 5] ! (j - 1))"
      unfolding g_def Let_def ids using j len by simp
    also have "\<dots> = c"
      using label_nth [OF j] by (simp add: c lj)
    finally have "g v = c" .
    with mem show "c \<in> set cats"
      by (auto simp add: map)
  qed
  with sub cats show ?thesis by blast
qed

subsection \<open>The cuts of the engine\<close>

lemma astype_int_total:
  assumes "set cats \<subseteq> Some ` A"
  shows "\<exists>vs. astype_int cats = Inr vs"
proof -
  from assms have "\<forall>c \<in> set cats. c \<noteq> None" by auto
  then have "cats = map Some (map the cats)"
    by (induction cats) auto
  then have "astype_int cats = Inr (map the cats)"
    using astype_int_map_Some [of "map the cats"] by simp
  then show ?thesis ..
qed

lemma qcut_Inr_astype_int:
  assumes "qcut x 5 ls = Inr cats"
  shows "\<exists>vs. astype_int cats = Inr vs"
proof -
  from qcut_cases [of 5 x ls] assms have "set cats \<subseteq> Some ` set ls" by auto
  then show ?thesis by (rule astype_int_total)
qed

lemma astype_int_Inl: "astype_int cs = Inl e \<Longrightarrow> e = ValueError"
proof (induction cs)
  case Nil
  then show ?case by simp
next
  case (Cons c cs)
  then show ?case by (cases c) (auto split: sum.splits)
qed

lemma qcut_Inl: "qcut x q ls = Inl e \<Longrightarrow> e = ValueError"
  by (cases e) (auto simp add: qcut_def Let_def split: if_splits)

text \<open>The engine returns a table exactly when none of its three cuts raises.\<close>

lemma perform_rfm_analysis_cuts:
  assumes "rfm_table df = Inr tab"
  shows "(\<exists>rfm. perform_rfm_analysis df = Inr rfm) \<longleftrightarrow>
         (\<exists>r f m. qcut (map (\<lambda>x. real_of_int (Recency x)) tab) 5 [5, 4, 3, 2, 1] = Inr r \<and>
            qcut (rank_first (map Frequency tab)) 5 [1, 2, 3, 4, 5] = Inr f \<and>
            qcut (map Monetary tab) 5 [1, 2, 3, 4, 5] = Inr m)"
proof
  assume "\<exists>rfm. perform_rfm_analysis df = Inr rfm"
  then obtain rfm where "perform_rfm_analysis df = Inr rfm" ..
  then obtain tab' r f m where "rfm_table df = Inr tab'"
    "qcut (map (\<lambda>x. real_of_int (Recency x)) tab') 5 [5, 4, 3, 2, 1] = Inr (map Some r)"
    "qcut (rank_first (map Frequency tab')) 5 [1, 2, 3, 4, 5] = Inr (map Some f)"
    "qcut (map Monetary tab') 5 [1, 2, 3, 4, 5] = Inr (map Some m)"
    by (rule perform_rfm_analysis_Inr)
  with assms show "\<exists>r f m. qcut (map (\<lambda>x. real_of_int (Recency x)) tab) 5 [5, 4, 3, 2, 1] = Inr r \<and>
            qcut (rank_first (map Frequency tab)) 5 [1, 2, 3, 4, 5] = Inr f \<and>
            qcut (map Monetary tab) 5 [1, 2, 3, 4, 5] = Inr m"
    by auto
next
  assume "\<exists>r f m. qcut (map (\<lambda>x. real_of_int (Recency x)) tab) 5 [5, 4, 3, 2, 1] = Inr r \<and>
            qcut (rank_first (map Frequency tab)) 5 [1, 2, 3, 4, 5] = Inr f \<and>
            qcut (map Monetary tab) 5 [1, 2, 3, 4, 5] = Inr m"
  then obtain r f m where
    r: "qcut (map (\<lambda>x. real_of_int (Recency x)) tab) 5 [5, 4, 3, 2, 1] = Inr r" and
    f: "qcut (rank_first (map Frequency tab)) 5 [1, 2, 3, 4, 5] = Inr f" and
    m: "qcut (map Monetary tab) 5 [1, 2, 3, 4, 5] = Inr m"
    by blast
  from qcut_Inr_astype_int [OF r] qcut_Inr_astype_int [OF f] qcut_Inr_astype_int [OF m]
  obtain r' f' m' where "astype_int r = Inr r'" "astype_int f = Inr f'" "astype_int m = Inr m'"
    by blast
  with assms r f m show "\<exists>rfm. perform_rfm_analysis df = Inr rfm"
    by (simp add: perform_rfm_analysis_def)
qed

lemma perform_rfm_analysis_cut_raises:
  assumes "rfm_table df = Inr tab"
    and "qcut (map (\<lambda>x. real_of_int (Recency x)) tab) 5 [5, 4, 3, 2, 1] = Inl ValueError \<or>
         qcut (rank_first (map Frequency tab)) 5 [1, 2, 3, 4, 5] = Inl ValueError \<or>
         qcut (map Monetary tab) 5 [1, 2, 3, 4, 5] = Inl ValueError"
  shows "perform_rfm_analysis df = Inl ValueError"
proof (cases "perform_rfm_analysis df")
  case (Inr rfm)
  then have "\<exists>rfm. perform_rfm_analysis df = Inr rfm" ..
  with perform_rfm_analysis_cuts [OF assms(1)] assms(2) show ?thesis by auto
next
  case (Inl e)
  with assms(1) have "e = ValueError"
    unfolding perform_rfm_analysis_def
    by (auto split: sum.splits dest: qcut_Inl astype_int_Inl)
  with Inl show ?thesis by simp
qed

lemma example_single_metrics_eq: "rfm_table example_single = Inr example_single_metrics"
  by (simp add: rfm_table_def snapshot_date_def example_single_def example_single_metrics_def
      groupby_keys_def rfm_aggregate_def get_group_def nunique_def day_ns_def timestamp_max_def)

lemma example_single_R_cut: "qcut [1] 5 [5, 4, 3, 2, 1] = Inl ValueError"
  by (simp add: qcut_def qcut_bins_def quantile_linear_def upt_rec Let_def)

text \<open>
  Claim C5, as amended. Each of the three quintile cuts of the engine raises
  \<^verbatim>\<open>ValueError\<close>, which ends the run with that exception, or gives every customer one
  of its five distinct labels, over six distinct bin edges; the engine returns a table
  exactly when no cut raises. The cut of the Frequency ranks does not raise when there are
  two customers or more, whatever ties the frequencies have. With five customers or more
  every one of its five bins is non-empty; with fewer than five customers some bin is empty.
\<close>

theorem quintile_cuts:
  fixes fs :: "int list"
  shows
  "(qcut x 5 ls = Inl ValueError \<or>
      (\<exists>cats. qcut x 5 ls = Inr cats \<and> length cats = length x \<and>
         set cats \<subseteq> Some ` set ls \<and> distinct ls \<and> length ls = 5 \<and>
         distinct (qcut_bins x 5) \<and> length (qcut_bins x 5) = 6)) \<and>
   (rfm_table df = Inr tab \<longrightarrow>
      ((\<exists>rfm. perform_rfm_analysis df = Inr rfm) \<longleftrightarrow>
         (\<exists>r f m. qcut (map (\<lambda>x. real_of_int (Recency x)) tab) 5 [5, 4, 3, 2, 1] = Inr r \<and>
            qcut (rank_first (map Frequency tab)) 5 [1, 2, 3, 4, 5] = Inr f \<and>
            qcut (map Monetary tab) 5 [1, 2, 3, 4, 5] = Inr m)) \<and>
      (qcut (map (\<lambda>x. real_of_int (Recency x)) tab) 5 [5, 4, 3, 2, 1] = Inl ValueError \<or>
         qcut (rank_first (map Frequency tab)) 5 [1, 2, 3, 4, 5] = Inl ValueError \<or>
         qcut (map Monetary tab) 5 [1, 2, 3, 4, 5] = Inl ValueError
       \<longrightarrow> perform_rfm_analysis df = Inl ValueError)) \<and>
   (2 \<le> length fs \<longrightarrow>
      (\<exists>cats. qcut (rank_first fs) 5 [1, 2, 3, 4, 5] = Inr cats \<and>
         length cats = length fs \<and> set cats \<subseteq> Some ` {1..5})) \<and>
   (5 \<le> length fs \<longrightarrow>
      (\<exists>cats. qcut (rank_first fs) 5 [1, 2, 3, 4, 5] = Inr cats \<and> set cats = Some ` {1..5})) \<and>
   (length fs < 5 \<longrightarrow>
      (\<forall>cats. qcut (rank_first fs) 5 [1, 2, 3, 4, 5] = Inr cats \<longrightarrow>
         set cats \<noteq> Some ` {1..5}))"
proof (intro conjI impI allI)
  show "qcut x 5 ls = Inl ValueError \<or>
      (\<exists>cats. qcut x 5 ls = Inr cats \<and> length cats = length x \<and>
         set cats \<subseteq> Some ` set ls \<and> distinct ls \<and> length ls = 5 \<and>
         distinct (qcut_bins x 5) \<and> length (qcut_bins x 5) = 6)"
    using qcut_cases [of 5 x ls] by auto
next
  assume "rfm_table df = Inr tab"
  then show "(\<exists>rfm. perform_rfm_analysis df = Inr rfm) \<longleftrightarrow>
         (\<exists>r f m. qcut (map (\<lambda>x. real_of_int (Recency x)) tab) 5 [5, 4, 3, 2, 1] = Inr r \<and>
            qcut (rank_first (map Frequency tab)) 5 [1, 2, 3, 4, 5] = Inr f \<and>
            qcut (map Monetary tab) 5 [1, 2, 3, 4, 5] = Inr m)"
    by (rule perform_rfm_analysis_cuts)
next
  assume "rfm_table df = Inr tab"
    and "qcut (map (\<lambda>x. real_of_int (Recency x)) tab) 5 [5, 4, 3, 2, 1] = Inl ValueError \<or>
         qcut (rank_first (map Frequency tab)) 5 [1, 2, 3, 4, 5] = Inl ValueError \<or>
         qcut (map Monetary tab) 5 [1, 2, 3, 4, 5] = Inl ValueError"
  then show "perform_rfm_analysis df = Inl ValueError"
    by (rule perform_rfm_analysis_cut_raises)
next
  assume "2 \<le> length fs"
  then show "\<exists>cats. qcut (rank_first fs) 5 [1, 2, 3, 4, 5] = Inr cats \<and>
         length cats = length fs \<and> set cats \<subseteq> Some ` {1..5}"
    by (rule qcut_rank_first_Inr)
next
  assume "5 \<le> length fs"
  then show "\<exists>cats. qcut (rank_first fs) 5 [1, 2, 3, 4, 5] = Inr cats \<and>
      set cats = Some ` {1..5}"
    by (rule qcut_rank_first_all_bins)
next
  fix cats
  assume less: "length fs < 5" and cats: "qcut (rank_first fs) 5 [1, 2, 3, 4, 5] = Inr cats"
  from qcut_length [OF cats] have "length cats = length fs" by simp
  then have "card (set cats) < 5"
    using card_length [of cats] less by simp
  moreover have "card (Some ` {1..5::int}) = 5"
    by (simp add: card_image)
  ultimately show "set cats \<noteq> Some ` {1..5}"
    by auto
qed

theorem quintile_cuts_witness:
  "rfm_table example_clean = Inr example_metrics \<and>
   (\<exists>rfm. perform_rfm_analysis example_clean = Inr rfm) \<and>
   (\<exists>r f m. qcut (map (\<lambda>x. real_of_int (Recency x)) example_metrics) 5 [5, 4, 3, 2, 1] = Inr r \<and>
      qcut (rank_first (map Frequency example_metrics)) 5 [1, 2, 3, 4, 5] = Inr f \<and>
      qcut (map Monetary example_metrics) 5 [1, 2, 3, 4, 5] = Inr m) \<and>
   2 \<le> length [1, 1::int] \<and>
   (\<exists>cats. qcut (rank_first [1, 1::int]) 5 [1, 2, 3, 4, 5] = Inr cats \<and>
      length cats = length [1, 1::int] \<and> set cats \<subseteq> Some ` {1..5}) \<and>
   5 \<le> length [7, 7, 7, 7, 7::int] \<and>
   (\<exists>cats. qcut (rank_first [7, 7, 7, 7, 7::int]) 5 [1, 2, 3, 4, 5] = Inr cats \<and>
      set cats = Some ` {1..5}) \<and>
   length [1, 1::int] < 5 \<and>
   qcut (rank_first [1, 1::int]) 5 [1, 2, 3, 4, 5] = Inr [Some 1, Some 5] \<and>
   set [Some 1, Some (5::int)] \<noteq> Some ` {1..5} \<and>
   rfm_table example_single = Inr example_single_metrics \<and>
   qcut (map (\<lambda>x. real_of_int (Recency x)) example_single_metrics) 5 [5, 4, 3, 2, 1]
     = Inl ValueError \<and>
   perform_rfm_analysis example_single = Inl ValueError"
proof -
  note c = quintile_cuts [of "[]" "[]" example_single example_single_metrics "[]"]
  have raises: "qcut (map (\<lambda>x. real_of_int (Recency x)) example_single_metrics) 5 [5, 4, 3, 2, 1]
      = Inl ValueError"
    by (simp add: example_single_metrics_def example_single_R_cut)
  have fails: "perform_rfm_analysis example_single = Inl ValueError"
    using c example_single_metrics_eq raises by blast
  note a = quintile_cuts [of "[]" "[]" example_clean example_metrics "[1, 1]"]
  note b = quintile_cuts [of "[]" "[]" example_clean example_metrics "[7, 7, 7, 7, 7]"]
  have two: "2 \<le> length [1, 1::int]" and five: "5 \<le> length [7, 7, 7, 7, 7::int]"
    and less: "length [1, 1::int] < 5"
    by simp_all
  have cut: "qcut (rank_first [1, 1::int]) 5 [1, 2, 3, 4, 5] = Inr [Some 1, Some 5]"
    by (simp only: example_F_rank example_F_cut)
  have run: "\<exists>rfm. perform_rfm_analysis example_clean = Inr rfm"
    using example_scored_eq ..
  have cuts: "\<exists>r f m.
      qcut (map (\<lambda>x. real_of_int (Recency x)) example_metrics) 5 [5, 4, 3, 2, 1] = Inr r \<and>
      qcut (rank_first (map Frequency example_metrics)) 5 [1, 2, 3, 4, 5] = Inr f \<and>
      qcut (map Monetary example_metrics) 5 [1, 2, 3, 4, 5] = Inr m"
    using a example_metrics_eq run by blast
  have c2: "\<exists>cats. qcut (rank_first [1, 1::int]) 5 [1, 2, 3, 4, 5] = Inr cats \<and>
      length cats = length [1, 1::int] \<and> set cats \<subseteq> Some ` {1..5}"
    using a two by blast
  have c5: "\<exists>cats. qcut (rank_first [7, 7, 7, 7, 7::int]) 5 [1, 2, 3, 4, 5] = Inr cats \<and>
      set cats = Some ` {1..5}"
    using b five by blast
  have empty: "set [Some 1, Some (5::int)] \<noteq> Some ` {1..5}"
    using a less cut by blast
  show ?thesis
    by (intro conjI example_metrics_eq run cuts two c2 five c5 less cut empty
        example_single_metrics_eq raises fails)
qed

text \<open>
  Claim C5 as first stated promises five non-empty Frequency bins. On the small data set,
  two customers with the same Frequency, the run does not fail and the ranks 1 and 2 fall in
  the bins 1 and 5: the bins 2, 3 and 4 are empty.
\<close>

theorem five_nonempty_bins_counterexample:
  "perform_rfm_analysis example_clean = Inr example_scored \<and>
   map Frequency example_scored = [1, 1] \<and>
   map F_Score example_scored = [1, 5] \<and>
   qcut (rank_first [1, 1::int]) 5 [1, 2, 3, 4, 5] = Inr [Some 1, Some 5] \<and>
   Some 3 \<notin> set [Some 1, Some (5::int)]"
proof -
  have "map Frequency example_scored = [1, 1]" "map F_Score example_scored = [1, 5]"
    by (simp_all add: example_scored_def)
  moreover have "qcut (rank_first [1, 1::int]) 5 [1, 2, 3, 4, 5] = Inr [Some 1, Some 5]"
    by (simp only: example_F_rank example_F_cut)
  moreover have "Some 3 \<notin> set [Some 1, Some (5::int)]"
    by simp
  ultimately show ?thesis
    using example_scored_eq by (intro conjI)
qed

subsection \<open>Row order\<close>










subsection \<open>Ties in the Frequency score\<close>






end
